theory Spec2Isabelle
  imports Main "HOL-Library.Sublist" "HOL-Library.Word"
begin

unbundle bit_operations_syntax

section \<open>Python string operations used by the upload view\<close>

text \<open>
  A Python \<open>str\<close> is a sequence of code points. \<^typ>\<open>string\<close> is \<^typ>\<open>char list\<close> and a
  \<^typ>\<open>char\<close> has eight bits, so a character stands for the code point of its number:
  the strings of this theory are the Python strings with code points below 256 (ASCII and
  the Latin-1 supplement), and the operations are those of Python on them.
\<close>

text \<open>\<open>snippet in s\<close>: the substring test of Python.\<close>

primrec py_in :: "string \<Rightarrow> string \<Rightarrow> bool" where
  "py_in snippet [] = (snippet = [])"
| "py_in snippet (c # cs) = (prefix snippet (c # cs) \<or> py_in snippet cs)"

text \<open>\<open>s.split(sep)\<close> for a one-character separator, scanning left to right with the
  segment read so far: the result is never empty and has one more segment than there are
  separators.\<close>

fun split_from :: "char \<Rightarrow> string \<Rightarrow> string \<Rightarrow> string list" where
  "split_from sep seg [] = [seg]"
| "split_from sep seg (c # cs) =
     (if c = sep then seg # split_from sep [] cs else split_from sep (seg @ [c]) cs)"

definition split_on :: "char \<Rightarrow> string \<Rightarrow> string list" where
  "split_on sep s = split_from sep [] s"

text \<open>\<open>s.lower()\<close>. The upper-case letters below 256 are \<open>A\<close> to \<open>Z\<close> and the
  code points \<open>0xC0\<close> to \<open>0xDE\<close> without the multiplication sign \<open>0xD7\<close>; the lower-case
  letter of each is 32 places further. Every other character is left as it is.\<close>

definition uppercase_letters :: string where
  "uppercase_letters =
     ''ABCDEFGHIJKLMNOPQRSTUVWXYZ''
       @ [CHR 0xC0, CHR 0xC1, CHR 0xC2, CHR 0xC3, CHR 0xC4, CHR 0xC5, CHR 0xC6, CHR 0xC7,
          CHR 0xC8, CHR 0xC9, CHR 0xCA, CHR 0xCB, CHR 0xCC, CHR 0xCD, CHR 0xCE, CHR 0xCF,
          CHR 0xD0, CHR 0xD1, CHR 0xD2, CHR 0xD3, CHR 0xD4, CHR 0xD5, CHR 0xD6,
          CHR 0xD8, CHR 0xD9, CHR 0xDA, CHR 0xDB, CHR 0xDC, CHR 0xDD, CHR 0xDE]"

definition lowercase_letters :: string where
  "lowercase_letters =
     ''abcdefghijklmnopqrstuvwxyz''
       @ [CHR 0xE0, CHR 0xE1, CHR 0xE2, CHR 0xE3, CHR 0xE4, CHR 0xE5, CHR 0xE6, CHR 0xE7,
          CHR 0xE8, CHR 0xE9, CHR 0xEA, CHR 0xEB, CHR 0xEC, CHR 0xED, CHR 0xEE, CHR 0xEF,
          CHR 0xF0, CHR 0xF1, CHR 0xF2, CHR 0xF3, CHR 0xF4, CHR 0xF5, CHR 0xF6,
          CHR 0xF8, CHR 0xF9, CHR 0xFA, CHR 0xFB, CHR 0xFC, CHR 0xFD, CHR 0xFE]"

definition lower_char :: "char \<Rightarrow> char" where
  "lower_char c =
     (case map_of (zip uppercase_letters lowercase_letters) c of
        Some l \<Rightarrow> l
      | None \<Rightarrow> c)"

definition lower :: "string \<Rightarrow> string" where
  "lower s = map lower_char s"

text \<open>\<open>s.endswith(suffix)\<close>.\<close>

definition endswith :: "string \<Rightarrow> string \<Rightarrow> bool" where
  "endswith s suf \<longleftrightarrow> length suf \<le> length s \<and> drop (length s - length suf) s = suf"

text \<open>\<open>sep.join(parts)\<close>.\<close>

fun join :: "string \<Rightarrow> string list \<Rightarrow> string" where
  "join sep [] = []"
| "join sep [x] = x"
| "join sep (x # y # ys) = x @ sep @ join sep (y # ys)"

section \<open>Settings and archive members\<close>

text \<open>The Django settings read by \<open>tecken/upload/views.py\<close>. The dictionary
  \<open>UPLOAD_URL_EXCEPTIONS\<close> is kept as the list of its items in iteration order.\<close>

record settings =
  DISALLOWED_SYMBOLS_SNIPPETS :: "string list"
  UPLOAD_DEFAULT_URL :: string
  UPLOAD_URL_EXCEPTIONS :: "(string \<times> string) list"
  UPLOAD_INBOX_DIRECTORY :: "string option"
  UPLOAD_REATTEMPT_LIMIT_SECONDS :: int
  UPLOAD_REATTEMPT_LIMIT_TIMES :: int

text \<open>One member of an archive, as yielded by \<open>get_archive_members\<close>: the attributes
  \<open>name\<close> and \<open>size\<close>.\<close>

record file_listing =
  fl_name :: string
  fl_size :: nat

section \<open>\<open>check_symbols_archive_file_listing\<close>\<close>

text \<open>\<open>_not_hex_characters = re.compile(r'[^a-f0-9]', re.I)\<close>; \<open>findall\<close> returns the
  characters of the string outside the class.\<close>

definition not_hex_characters_findall :: "string \<Rightarrow> char list" where
  "not_hex_characters_findall s = filter (\<lambda>c. c \<notin> set ''abcdefABCDEF0123456789'') s"

definition snippet_message :: "string \<Rightarrow> string" where
  "snippet_message snippet =
     ''Content of archive file contains the snippet '' @ [CHR 0x27] @ snippet @ [CHR 0x27]
       @ '' which is not allowed''"

definition unrecognized_message :: string where
  "unrecognized_message =
     ''Unrecognized file pattern. Should only be <module>/<hex>/<file> ''
       @ ''or <name>-symbols.txt and nothing else.''"

text \<open>The inner loop over the snippets returns at the first snippet found in the name.\<close>

fun find_snippet :: "string list \<Rightarrow> string \<Rightarrow> string option" where
  "find_snippet [] nm = None"
| "find_snippet (snippet # rest) nm =
     (if py_in snippet nm then Some snippet else find_snippet rest nm)"

text \<open>The outer loop; \<open>None\<close> is the implicit \<open>return None\<close> at the end of the function,
  a recursive call on the rest of the listing is \<open>continue\<close>.\<close>

fun check_symbols_archive_file_listing ::
  "settings \<Rightarrow> file_listing list \<Rightarrow> string option" where
  "check_symbols_archive_file_listing st [] = None"
| "check_symbols_archive_file_listing st (fl # file_listings) =
     (case find_snippet (DISALLOWED_SYMBOLS_SNIPPETS st) (fl_name fl) of
        Some snippet \<Rightarrow> Some (snippet_message snippet)
      | None \<Rightarrow>
          (let split = split_on CHR ''/'' (fl_name fl) in
           if length split = 3 then
             (if not_hex_characters_findall (split ! 1) = []
              then check_symbols_archive_file_listing st file_listings
              else Some unrecognized_message)
           else if length split = 1 then
             (if endswith (lower (fl_name fl)) ''-symbols.txt''
              then check_symbols_archive_file_listing st file_listings
              else Some unrecognized_message)
           else Some unrecognized_message))"

section \<open>Decimal numbers and dates\<close>

text \<open>\<open>str(n)\<close> for a natural number.\<close>

fun str_nat :: "nat \<Rightarrow> string" where
  "str_nat n =
     (if n < 10 then [''0123456789'' ! n]
      else str_nat (n div 10) @ [''0123456789'' ! (n mod 10)])"

declare str_nat.simps [simp del]

text \<open>A \<open>datetime\<close> as the view uses it: its calendar date (for \<open>strftime\<close>) and its
  position on the time line in seconds (for comparisons and \<open>timedelta\<close>).\<close>

record datetime =
  year :: nat
  month :: nat
  day :: nat
  timestamp :: int

definition zero_pad :: "nat \<Rightarrow> string \<Rightarrow> string" where
  "zero_pad width s = replicate (width - length s) CHR ''0'' @ s"

text \<open>\<open>strftime('%Y-%m-%d')\<close>.\<close>

definition strftime_Y_m_d :: "datetime \<Rightarrow> string" where
  "strftime_Y_m_d d =
     zero_pad 4 (str_nat (year d)) @ ''-'' @ zero_pad 2 (str_nat (month d)) @ ''-''
       @ zero_pad 2 (str_nat (day d))"

section \<open>\<open>hashlib.md5\<close>\<close>

text \<open>\<open>s.encode('utf-8')\<close>: a code point below 128 is one byte, a code point from 128 to
  255 is the two bytes \<open>110000xx 10xxxxxx\<close>.\<close>

definition encode_utf8 :: "string \<Rightarrow> nat list" where
  "encode_utf8 s =
     concat (map (\<lambda>c. if of_char c < (128 :: nat) then [of_char c]
                       else [192 + of_char c div 64, 128 + of_char c mod 64]) s)"

text \<open>The MD5 message digest (RFC 1321) on bytes, with 32-bit words; \<open>md5_hexdigest\<close>
  is \<open>hashlib.md5(s.encode('utf-8')).hexdigest()\<close>.\<close>

definition md5_shifts :: "nat list" where
  "md5_shifts =
     [7, 12, 17, 22, 7, 12, 17, 22, 7, 12, 17, 22, 7, 12, 17, 22,
      5, 9, 14, 20, 5, 9, 14, 20, 5, 9, 14, 20, 5, 9, 14, 20,
      4, 11, 16, 23, 4, 11, 16, 23, 4, 11, 16, 23, 4, 11, 16, 23,
      6, 10, 15, 21, 6, 10, 15, 21, 6, 10, 15, 21, 6, 10, 15, 21]"

definition md5_sines :: "32 word list" where
  "md5_sines =
     [0xd76aa478, 0xe8c7b756, 0x242070db, 0xc1bdceee,
      0xf57c0faf, 0x4787c62a, 0xa8304613, 0xfd469501,
      0x698098d8, 0x8b44f7af, 0xffff5bb1, 0x895cd7be,
      0x6b901122, 0xfd987193, 0xa679438e, 0x49b40821,
      0xf61e2562, 0xc040b340, 0x265e5a51, 0xe9b6c7aa,
      0xd62f105d, 0x02441453, 0xd8a1e681, 0xe7d3fbc8,
      0x21e1cde6, 0xc33707d6, 0xf4d50d87, 0x455a14ed,
      0xa9e3e905, 0xfcefa3f8, 0x676f02d9, 0x8d2a4c8a,
      0xfffa3942, 0x8771f681, 0x6d9d6122, 0xfde5380c,
      0xa4beea44, 0x4bdecfa9, 0xf6bb4b60, 0xbebfbc70,
      0x289b7ec6, 0xeaa127fa, 0xd4ef3085, 0x04881d05,
      0xd9d4d039, 0xe6db99e5, 0x1fa27cf8, 0xc4ac5665,
      0xf4292244, 0x432aff97, 0xab9423a7, 0xfc93a039,
      0x655b59c3, 0x8f0ccc92, 0xffeff47d, 0x85845dd1,
      0x6fa87e4f, 0xfe2ce6e0, 0xa3014314, 0x4e0811a1,
      0xf7537e82, 0xbd3af235, 0x2ad7d2bb, 0xeb86d391]"

definition leftrotate :: "32 word \<Rightarrow> nat \<Rightarrow> 32 word" where
  "leftrotate x c = push_bit c x OR drop_bit (32 - c) x"

text \<open>Padding: the bit 1, zeros up to 56 modulo 64 bytes, then the length in bits as
  eight little-endian bytes.\<close>

definition le_bytes :: "nat \<Rightarrow> nat \<Rightarrow> nat list" where
  "le_bytes k n = map (\<lambda>i. (n div 256 ^ i) mod 256) [0..<k]"

definition md5_pad :: "nat list \<Rightarrow> nat list" where
  "md5_pad msg =
     msg @ [128] @ replicate ((119 - length msg mod 64) mod 64) 0
       @ le_bytes 8 ((8 * length msg) mod 2 ^ 64)"

definition le_word :: "nat list \<Rightarrow> 32 word" where
  "le_word bs = of_nat (foldr (\<lambda>b acc. b + 256 * acc) bs 0)"

fun chunks :: "nat \<Rightarrow> nat \<Rightarrow> 'a list \<Rightarrow> 'a list list" where
  "chunks 0 k xs = []"
| "chunks (Suc n) k xs = take k xs # chunks n k (drop k xs)"

type_synonym md5_state = "32 word \<times> 32 word \<times> 32 word \<times> 32 word"

definition md5_round :: "32 word list \<Rightarrow> md5_state \<Rightarrow> nat \<Rightarrow> md5_state" where
  "md5_round M s i =
     (case s of (A, B, C, D) \<Rightarrow>
        let (F, g) =
              (if i < 16 then ((B AND C) OR (NOT B AND D), i)
               else if i < 32 then ((D AND B) OR (NOT D AND C), (5 * i + 1) mod 16)
               else if i < 48 then (B XOR C XOR D, (3 * i + 5) mod 16)
               else (C XOR (B OR NOT D), (7 * i) mod 16));
            F' = F + A + md5_sines ! i + M ! g
        in (D, B + leftrotate F' (md5_shifts ! i), B, C))"

definition md5_block :: "md5_state \<Rightarrow> nat list \<Rightarrow> md5_state" where
  "md5_block s block =
     (let M = map le_word (chunks 16 4 block) in
      case (s, foldl (md5_round M) s [0..<64]) of
        ((a0, b0, c0, d0), (A, B, C, D)) \<Rightarrow> (a0 + A, b0 + B, c0 + C, d0 + D))"

definition md5_digest :: "nat list \<Rightarrow> nat list" where
  "md5_digest msg =
     (let padded = md5_pad msg in
      case foldl md5_block (0x67452301, 0xefcdab89, 0x98badcfe, 0x10325476)
             (chunks (length padded div 64) 64 padded) of
        (a, b, c, d) \<Rightarrow> concat (map (\<lambda>w. le_bytes 4 (unat w)) [a, b, c, d]))"

definition hexdigits :: string where
  "hexdigits = ''0123456789abcdef''"

definition hex_byte :: "nat \<Rightarrow> string" where
  "hex_byte b = [hexdigits ! (b div 16 mod 16), hexdigits ! (b mod 16)]"

definition md5_hexdigest :: "string \<Rightarrow> string" where
  "md5_hexdigest s = concat (map hex_byte (md5_digest (encode_utf8 s)))"

section \<open>The staging key\<close>

text \<open>Lines 190 to 203 of \<open>upload_archive\<close>: the listing as text, its hash and the key.\<close>

definition listing_content :: "file_listing list \<Rightarrow> string" where
  "listing_content file_listing =
     join [CHR 0x0A] (map (\<lambda>x. fl_name x @ '':'' @ str_nat (fl_size x)) file_listing)"

definition content_hash :: "file_listing list \<Rightarrow> string" where
  "content_hash file_listing = take 12 (md5_hexdigest (listing_content file_listing))"

definition inbox_key_for :: "datetime \<Rightarrow> file_listing list \<Rightarrow> string \<Rightarrow> string" where
  "inbox_key_for today file_listing nm =
     ''inbox/'' @ strftime_Y_m_d today @ ''/'' @ content_hash file_listing @ ''/'' @ nm"

section \<open>Requests, the outside world and the state\<close>

record user =
  email :: string

text \<open>The \<open>Upload\<close> model, with the fields the view reads or writes.\<close>

record upload_row =
  upload_id :: nat
  upload_user :: user
  filename :: string
  inbox_filepath :: "string option"
  inbox_key :: "string option"
  bucket_name :: string
  bucket_region :: "string option"
  bucket_endpoint_url :: "string option"
  upload_size :: nat
  download_url :: "string option"
  completed_at :: "datetime option"
  cancelled_at :: "datetime option"
  created_at :: datetime
  upload_attempts :: int
  skipped_keys :: "string list option"

text \<open>The attributes of \<open>tecken.s3.S3Bucket\<close> the view reads.\<close>

record s3bucket =
  s3_name :: string
  s3_region :: "string option"
  s3_endpoint_url :: "string option"

text \<open>Exceptions that leave the view. \<open>ClientError\<close> carries
  \<open>response['Error']['Code']\<close>; \<open>ImproperlyConfigured\<close> carries the three values its
  message is formatted from (bucket name, region, endpoint); \<open>ZeroDivisionError\<close> is
  raised by the division of the size by an elapsed time of zero; \<open>OtherError\<close> is any
  other exception of a library call, by name.\<close>

datatype exn =
    ClientError string
  | ImproperlyConfigured string "string option" "string option"
  | UnboundLocalError string
  | ZeroDivisionError
  | OtherError string

datatype archive_error = BadZipfile string | UnrecognizedArchiveFileExtension string

text \<open>An uploaded file: its \<open>size\<close> and its content, one character for each byte.\<close>

record uploaded_file =
  file_size :: nat
  file_content :: string

text \<open>\<open>form.cleaned_data\<close> of a valid \<open>UploadByDownloadForm\<close>.\<close>

record cleaned_data =
  form_url :: string
  form_upload_name :: string
  form_upload_size :: nat

text \<open>A request: the user, \<open>request.FILES\<close> as its items in order, \<open>request.POST.get('url')\<close>
  and the outcome of validating \<open>UploadByDownloadForm(request.POST)\<close>: the cleaned data, or
  the first error message of every field with errors.\<close>

record request =
  request_user :: user
  FILES :: "(string \<times> uploaded_file) list"
  POST_url :: "string option"
  download_form :: "string list + cleaned_data"

text \<open>What the calls that leave the process answer while one request is handled.
  \<open>head_bucket\<close> and \<open>put_object\<close> give the exception raised, if any; \<open>isfile path k\<close>
  is the answer of the \<open>k\<close>-th call (from 0) of \<open>os.path.isfile(path)\<close>; \<open>time_time k\<close>
  is the reading of the \<open>k\<close>-th call (from 0) of \<open>time.time()\<close>, in ticks of the clock.
  Two readings are the same float exactly when they are the same number of ticks.\<close>

record environment =
  now :: datetime
  get_archive_members :: "string \<Rightarrow> string \<Rightarrow> archive_error + file_listing list"
  requests_get :: "string \<Rightarrow> exn + string"
  S3Bucket :: "string \<Rightarrow> s3bucket"
  fnmatch :: "string \<Rightarrow> string \<Rightarrow> bool"
  head_bucket :: "string \<Rightarrow> exn option"
  put_object :: "string \<Rightarrow> string \<Rightarrow> string \<Rightarrow> exn option"
  isdir :: "string \<Rightarrow> bool"
  isfile :: "string \<Rightarrow> nat \<Rightarrow> bool"
  time_time :: "nat \<Rightarrow> int"

datatype s3_call = HeadBucket string | PutObject string string string

text \<open>The state the view changes: the \<open>Upload\<close> table, the calls made on the S3 client,
  directories made and files written under the inbox directory, the seconds slept, the
  upload ids handed to \<open>upload_inbox_upload.delay\<close>, and the cache as key, value and
  expiry time.\<close>

record world =
  uploads :: "upload_row list"
  next_upload_id :: nat
  s3_calls :: "s3_call list"
  directories :: "string list"
  files :: "(string \<times> string) list"
  sleeps :: "nat list"
  delayed :: "nat list"
  cache :: "(string \<times> bool \<times> int) list"

datatype py_value =
    PyNone
  | PyInt int
  | PyStr string
  | PyDatetime datetime
  | PyList "py_value list"
  | PyDict "(string \<times> py_value) list"

datatype http_response = JsonResponse py_value nat

datatype outcome = Returned http_response | Raised exn

section \<open>\<open>get_bucket_info\<close>\<close>

text \<open>The loop over the keys of \<open>UPLOAD_URL_EXCEPTIONS\<close>; it breaks at the first key that
  matches.\<close>

fun match_wildcards ::
  "environment \<Rightarrow> (string \<times> string) list \<Rightarrow> string \<Rightarrow> string list \<Rightarrow> string option" where
  "match_wildcards env exceptions lowered [] = None"
| "match_wildcards env exceptions lowered (email_or_wildcard # rest) =
     (if fnmatch env lowered (lower email_or_wildcard)
      then map_of exceptions email_or_wildcard
      else match_wildcards env exceptions lowered rest)"

text \<open>The URL handed to \<open>S3Bucket\<close>. \<open>if exception:\<close> holds for a non-empty string.\<close>

definition get_bucket_url :: "settings \<Rightarrow> environment \<Rightarrow> user \<Rightarrow> string" where
  "get_bucket_url st env usr =
     (let url = UPLOAD_DEFAULT_URL st;
          exceptions = UPLOAD_URL_EXCEPTIONS st;
          exception =
            (if lower (email usr) \<in> set (map fst exceptions)
             then map_of exceptions (lower (email usr))
             else match_wildcards env exceptions (lower (email usr)) (map fst exceptions))
      in case exception of
           None \<Rightarrow> url
         | Some e \<Rightarrow> if e \<noteq> [] then e else url)"

definition get_bucket_info :: "settings \<Rightarrow> environment \<Rightarrow> user \<Rightarrow> s3bucket" where
  "get_bucket_info st env usr = S3Bucket env (get_bucket_url st env usr)"

section \<open>Waiting for the inbox file\<close>

text \<open>The \<open>while not os.path.isfile(inbox_filepath)\<close> loop, lines 253 to 262. Every
  iteration makes one check, so the number of the check is \<open>attempts\<close>. The result is
  the final value of \<open>attempts\<close> and the arguments of the \<open>time.sleep\<close> calls in order.\<close>

function wait_for_file :: "(nat \<Rightarrow> bool) \<Rightarrow> nat \<Rightarrow> nat list \<Rightarrow> nat \<times> nat list" where
  "wait_for_file visible attempts slept =
     (if \<not> visible attempts then
        (let attempts' = attempts + 1; slept' = slept @ [attempts'] in
         if attempts' > 4 then (attempts', slept')
         else wait_for_file visible attempts' slept')
      else (attempts, slept))"
  by pat_completeness auto

termination
  by (relation "measure (\<lambda>(visible, attempts, slept). 5 - attempts)") auto

declare wait_for_file.simps [simp del]

section \<open>The cache and the scan for stuck uploads\<close>

text \<open>\<open>django.core.cache\<close>: \<open>cache.get(key)\<close> at time \<open>t\<close> gives the value of an entry that
  has not expired, \<open>cache.set(key, value, timeout)\<close> stores the value until \<open>t + timeout\<close>.\<close>

definition cache_get :: "(string \<times> bool \<times> int) list \<Rightarrow> int \<Rightarrow> string \<Rightarrow> bool option" where
  "cache_get c t k =
     (case map_of c k of
        None \<Rightarrow> None
      | Some (v, expires) \<Rightarrow> if t < expires then Some v else None)"

definition cache_set ::
  "(string \<times> bool \<times> int) list \<Rightarrow> int \<Rightarrow> string \<Rightarrow> bool \<Rightarrow> int \<Rightarrow> (string \<times> bool \<times> int) list" where
  "cache_set c t k v timeout = (k, v, t + timeout) # filter (\<lambda>entry. fst entry \<noteq> k) c"

text \<open>The query of lines 303 to 312.\<close>

definition incomplete_uploads :: "settings \<Rightarrow> datetime \<Rightarrow> upload_row list \<Rightarrow> upload_row list" where
  "incomplete_uploads st t table =
     filter (\<lambda>u. completed_at u = None \<and> cancelled_at u = None
                \<and> timestamp (created_at u) < timestamp t - UPLOAD_REATTEMPT_LIMIT_SECONDS st
                \<and> upload_attempts u < UPLOAD_REATTEMPT_LIMIT_TIMES st) table"

text \<open>The loop of lines 313 to 324. \<open>not cache.get(cache_key)\<close> holds when there is no live
  entry or its value is false.\<close>

fun reattempt_loop :: "settings \<Rightarrow> datetime \<Rightarrow> upload_row list \<Rightarrow> world \<Rightarrow> world" where
  "reattempt_loop st t [] w = w"
| "reattempt_loop st t (old_upload_obj # rest) w =
     (let cache_key = ''reattempt:'' @ str_nat (upload_id old_upload_obj) in
      if cache_get (cache w) (timestamp t) cache_key \<noteq> Some True then
        reattempt_loop st t rest
          (w\<lparr>delayed := delayed w @ [upload_id old_upload_obj],
             cache := cache_set (cache w) (timestamp t) cache_key True
                        (UPLOAD_REATTEMPT_LIMIT_SECONDS st)\<rparr>)
      else reattempt_loop st t rest w)"

definition reattempt_incomplete_uploads :: "settings \<Rightarrow> datetime \<Rightarrow> world \<Rightarrow> world" where
  "reattempt_incomplete_uploads st t w =
     reattempt_loop st t
       (sort_key (\<lambda>u. timestamp (created_at u)) (incomplete_uploads st t (uploads w))) w"

section \<open>\<open>_serialize_upload\<close>\<close>

definition py_optional :: "('a \<Rightarrow> py_value) \<Rightarrow> 'a option \<Rightarrow> py_value" where
  "py_optional f x = (case x of None \<Rightarrow> PyNone | Some v \<Rightarrow> f v)"

definition serialize_upload :: "upload_row \<Rightarrow> py_value" where
  "serialize_upload upload =
     PyDict
       [(''id'', PyInt (int (upload_id upload))),
        (''size'', PyInt (int (upload_size upload))),
        (''filename'', PyStr (filename upload)),
        (''bucket'', PyStr (bucket_name upload)),
        (''region'', py_optional PyStr (bucket_region upload)),
        (''download_url'', py_optional PyStr (download_url upload)),
        (''completed_at'', py_optional PyDatetime (completed_at upload)),
        (''created_at'', PyDatetime (created_at upload)),
        (''user'', PyStr (email (upload_user upload))),
        (''skipped_keys'',
           (case skipped_keys upload of
              None \<Rightarrow> PyList []
            | Some ks \<Rightarrow> if ks \<noteq> [] then PyList (map PyStr ks) else PyList []))]"

section \<open>Paths and whitespace\<close>

text \<open>\<open>os.path.join(a, b)\<close> and \<open>os.path.dirname(p)\<close> of \<open>posixpath\<close>.\<close>

definition os_path_join :: "string \<Rightarrow> string \<Rightarrow> string" where
  "os_path_join a b =
     (if prefix ''/'' b then b
      else if a = [] \<or> endswith a ''/'' then a @ b
      else a @ ''/'' @ b)"

definition os_path_dirname :: "string \<Rightarrow> string" where
  "os_path_dirname p =
     (let head = rev (dropWhile (\<lambda>c. c \<noteq> CHR ''/'') (rev p)) in
      if head \<noteq> [] \<and> head \<noteq> replicate (length head) CHR ''/''
      then rev (dropWhile (\<lambda>c. c = CHR ''/'') (rev head))
      else head)"

text \<open>\<open>s.strip()\<close>: the whitespace characters below 256 are the space, the controls
  \<open>0x09\<close> to \<open>0x0D\<close> and \<open>0x1C\<close> to \<open>0x1F\<close>, the next-line control \<open>0x85\<close> and the no-break
  space \<open>0xA0\<close>.\<close>

definition is_space :: "char \<Rightarrow> bool" where
  "is_space c \<longleftrightarrow>
     c \<in> set [CHR 0x20, CHR 0x09, CHR 0x0A, CHR 0x0B, CHR 0x0C, CHR 0x0D,
                CHR 0x1C, CHR 0x1D, CHR 0x1E, CHR 0x1F, CHR 0x85, CHR 0xA0]"

definition strip :: "string \<Rightarrow> string" where
  "strip s = rev (dropWhile is_space (rev (dropWhile is_space s)))"

section \<open>\<open>upload_archive\<close>\<close>

text \<open>The view, without its logging and metrics. The decorators are taken as passed: the
  request is a POST of a logged-in user with the permission. \<open>transaction.atomic\<close> undoes
  the changes of the \<open>Upload\<close> table when an exception leaves the view. Creating a
  directory, writing the inbox file, creating the \<open>Upload\<close> record, handing an id to the
  task queue and the cache are taken to succeed; the calls that can fail are those of the
  environment with an exception among their answers.\<close>

definition error_response :: "string \<Rightarrow> outcome" where
  "error_response message = Returned (JsonResponse (PyDict [(''error'', PyStr message)]) 400)"

text \<open>What the first part of the view binds: \<open>name\<close>, \<open>upload\<close> (its bytes), \<open>size\<close> and
  \<open>url\<close>.\<close>

record upload_input =
  in_name :: string
  in_upload :: string
  in_size :: nat
  in_url :: "string option"

text \<open>Lines 114 to 145. An invalid form whose error dictionary is empty returns nothing
  in the loop over it, and the view goes on to read \<open>size\<close>, which is not bound.\<close>

definition read_upload :: "environment \<Rightarrow> request \<Rightarrow> outcome + upload_input" where
  "read_upload env req =
     (case FILES req of
        (nm, upload) # _ \<Rightarrow>
          Inr \<lparr>in_name = nm, in_upload = file_content upload, in_size = file_size upload,
               in_url = None\<rparr>
      | [] \<Rightarrow>
          (if POST_url req \<noteq> None \<and> POST_url req \<noteq> Some [] then
             (case download_form req of
                Inr cleaned \<Rightarrow>
                  (case requests_get env (form_url cleaned) of
                     Inl e \<Rightarrow> Inl (Raised e)
                   | Inr content \<Rightarrow>
                       Inr \<lparr>in_name = form_upload_name cleaned, in_upload = content,
                            in_size = form_upload_size cleaned,
                            in_url = Some (form_url cleaned)\<rparr>)
              | Inl [] \<Rightarrow> Inl (Raised (UnboundLocalError ''size''))
              | Inl (message # _) \<Rightarrow> Inl (error_response message))
           else Inl (error_response ''Must be multipart form data with at least one file'')))"

text \<open>Modelled from the spec: \<open>Upload.objects.create\<close>, whose model class
  (\<open>tecken/upload/models.py\<close>) is not among the sources. The new record gets a fresh id and
  the creation time; it is not completed, not cancelled, has no attempt and no skipped
  member yet.\<close>

definition Upload_objects_create ::
  "environment \<Rightarrow> request \<Rightarrow> upload_input \<Rightarrow> s3bucket \<Rightarrow> string option \<Rightarrow> string option
     \<Rightarrow> world \<Rightarrow> upload_row \<times> world" where
  "Upload_objects_create env req inp bucket_info filepath key w =
     (let upload_obj =
            \<lparr>upload_id = next_upload_id w, upload_user = request_user req,
             filename = in_name inp, inbox_filepath = filepath, inbox_key = key,
             bucket_name = s3_name bucket_info, bucket_region = s3_region bucket_info,
             bucket_endpoint_url = s3_endpoint_url bucket_info,
             upload_size = in_size inp, download_url = in_url inp,
             completed_at = None, cancelled_at = None, created_at = now env,
             upload_attempts = 0, skipped_keys = None\<rparr>
      in (upload_obj,
          w\<lparr>uploads := uploads w @ [upload_obj], next_upload_id := Suc (next_upload_id w)\<rparr>))"

text \<open>Lines 207 to 295, the inner \<open>transaction.atomic\<close> block: the inbox file goes to the
  file system when \<open>UPLOAD_INBOX_DIRECTORY\<close> is set, and to the bucket otherwise. The clock
  is read before and after the write, and the size is divided by the time between the two
  readings: \<open>size / store_time\<close> and \<open>size / upload_time\<close> raise \<open>ZeroDivisionError\<close>
  when the clock has not moved. When \<open>put_object\<close> or the division raises, the new
  \<open>Upload\<close> record is undone; a directory made, a file written and the call on the bucket
  stay.\<close>

definition store_upload ::
  "settings \<Rightarrow> environment \<Rightarrow> request \<Rightarrow> upload_input \<Rightarrow> s3bucket \<Rightarrow> string \<Rightarrow> world
     \<Rightarrow> (exn + upload_row) \<times> world" where
  "store_upload st env req inp bucket_info key w =
     (case UPLOAD_INBOX_DIRECTORY st of
        Some (c # cs) \<Rightarrow>
          (let inbox_filepath = os_path_join (c # cs) key;
               inbox_filedir = os_path_dirname inbox_filepath;
               w1 = (if \<not> isdir env inbox_filedir
                     then w\<lparr>directories := directories w @ [inbox_filedir]\<rparr> else w);
               (upload_obj, w2) =
                 Upload_objects_create env req inp bucket_info (Some inbox_filepath) None w1;
               t0 = time_time env 0;
               w3 = w2\<lparr>files := files w2 @ [(inbox_filepath, in_upload inp)]\<rparr>;
               t1 = time_time env 1;
               store_time = t1 - t0
           in if store_time = 0
              then (Inl ZeroDivisionError,
                    w1\<lparr>files := files w1 @ [(inbox_filepath, in_upload inp)]\<rparr>)
              else
                (let (attempts, slept) = wait_for_file (isfile env inbox_filepath) 0 []
                 in (Inr upload_obj, w3\<lparr>sleeps := sleeps w3 @ slept\<rparr>)))
      | _ \<Rightarrow>
          (let (upload_obj, w1) =
                 Upload_objects_create env req inp bucket_info None (Some key) w;
               call = PutObject (s3_name bucket_info) key (in_upload inp);
               t0 = time_time env 0
           in case put_object env (s3_name bucket_info) key (in_upload inp) of
                Some e \<Rightarrow> (Inl e, w\<lparr>s3_calls := s3_calls w @ [call]\<rparr>)
              | None \<Rightarrow>
                  (let t1 = time_time env 1;
                       upload_time = t1 - t0
                   in if upload_time = 0
                      then (Inl ZeroDivisionError, w\<lparr>s3_calls := s3_calls w @ [call]\<rparr>)
                      else (Inr upload_obj, w1\<lparr>s3_calls := s3_calls w1 @ [call]\<rparr>))))"

text \<open>Lines 168 to 329: the bucket check, the key, the inbox file, the task and the scan.\<close>

definition store_and_dispatch ::
  "settings \<Rightarrow> environment \<Rightarrow> request \<Rightarrow> upload_input \<Rightarrow> file_listing list \<Rightarrow> world
     \<Rightarrow> outcome \<times> world" where
  "store_and_dispatch st env req inp file_listing w =
     (let bucket_info = get_bucket_info st env (request_user req);
          w1 = w\<lparr>s3_calls := s3_calls w @ [HeadBucket (s3_name bucket_info)]\<rparr>
      in case head_bucket env (s3_name bucket_info) of
           Some (ClientError code) \<Rightarrow>
             (if code = ''404''
              then (Raised (ImproperlyConfigured (s3_name bucket_info) (s3_region bucket_info)
                              (s3_endpoint_url bucket_info)), w1)
              else (Raised (ClientError code), w1))
         | Some e \<Rightarrow> (Raised e, w1)
         | None \<Rightarrow>
             (let key = inbox_key_for (now env) file_listing (in_name inp) in
              case store_upload st env req inp bucket_info key w1 of
                (Inl e, w2) \<Rightarrow> (Raised e, w2)
              | (Inr upload_obj, w2) \<Rightarrow>
                  (let w3 = w2\<lparr>delayed := delayed w2 @ [upload_id upload_obj]\<rparr>;
                       w4 = reattempt_incomplete_uploads st (now env) w3
                   in (Returned (JsonResponse
                                   (PyDict [(''upload'', serialize_upload upload_obj)]) 201),
                       w4))))"

definition upload_archive ::
  "settings \<Rightarrow> environment \<Rightarrow> request \<Rightarrow> world \<Rightarrow> outcome \<times> world" where
  "upload_archive st env req w =
     (case read_upload env req of
        Inl out \<Rightarrow> (out, w)
      | Inr inp \<Rightarrow>
          if in_size inp = 0 then (error_response ''File size 0'', w)
          else
            (case get_archive_members env (in_upload inp) (in_name inp) of
               Inl (BadZipfile message) \<Rightarrow> (error_response message, w)
             | Inl (UnrecognizedArchiveFileExtension ext) \<Rightarrow>
                 (error_response
                    (''Unrecognized archive file extension '' @ [CHR 0x22] @ ext @ [CHR 0x22]), w)
             | Inr file_listing \<Rightarrow>
                 (case check_symbols_archive_file_listing st file_listing of
                    Some (c # cs) \<Rightarrow> (error_response (strip (c # cs)), w)
                  | _ \<Rightarrow> store_and_dispatch st env req inp file_listing w)))"

section \<open>The storage bucket's existence probe\<close>

text \<open>The answers of the probe of a bucket (a head or metadata call): success, not found,
  an authorization denial, or a transport or connectivity failure; the last two carry the
  backend's error kind and message. A \<open>StorageError\<close> carries the backend name, the base
  URL and the backend's error.\<close>

datatype probe_response =
    ProbeSuccess
  | ProbeNotFound
  | ProbeAuthorizationDenied string string
  | ProbeTransportFailure string string

record storage_bucket =
  sb_backend :: string
  sb_base_url :: string
  sb_name :: string

datatype storage_error = StorageError string string string string

text \<open>Modelled from the spec: \<open>StorageBucket.exists\<close> of \<open>tecken/storage.py\<close>, which is
  not among the sources; only its tests are. Not found gives false, success gives true, an
  authorization denial and a transport failure raise \<open>StorageError\<close>.\<close>

definition storage_bucket_exists :: "storage_bucket \<Rightarrow> probe_response \<Rightarrow> storage_error + bool" where
  "storage_bucket_exists bucket response =
     (case response of
        ProbeSuccess \<Rightarrow> Inr True
      | ProbeNotFound \<Rightarrow> Inr False
      | ProbeAuthorizationDenied kind message \<Rightarrow>
          Inl (StorageError (sb_backend bucket) (sb_base_url bucket) kind message)
      | ProbeTransportFailure kind message \<Rightarrow>
          Inl (StorageError (sb_backend bucket) (sb_base_url bucket) kind message))"

section \<open>Specification vocabulary\<close>

text \<open>The words of the design document, as predicates on a member name: a name contains
  a disallowed snippet when some configured snippet is a contiguous part of it; its shape is
  recognized when it has exactly three \<open>/\<close>-separated segments with a hexadecimal middle
  segment, or is a single segment ending in \<open>-symbols.txt\<close> up to case.\<close>

definition hexadecimal :: "string \<Rightarrow> bool" where
  "hexadecimal s \<longleftrightarrow> (\<forall>c\<in>set s. c \<in> set ''0123456789abcdefABCDEF'')"

definition contains_disallowed :: "settings \<Rightarrow> string \<Rightarrow> bool" where
  "contains_disallowed st nm \<longleftrightarrow> (\<exists>snippet\<in>set (DISALLOWED_SYMBOLS_SNIPPETS st). sublist snippet nm)"

definition recognized_shape :: "string \<Rightarrow> bool" where
  "recognized_shape nm \<longleftrightarrow>
     (let segments = split_on CHR ''/'' nm in
      (length segments = 3 \<and> hexadecimal (segments ! 1))
      \<or> (length segments = 1 \<and> suffix ''-symbols.txt'' (lower nm)))"

definition acceptable :: "settings \<Rightarrow> file_listing \<Rightarrow> bool" where
  "acceptable st m \<longleftrightarrow> \<not> contains_disallowed st (fl_name m) \<and> recognized_shape (fl_name m)"

text \<open>\<open>d[key]\<close> on a serialized dictionary.\<close>

definition py_get :: "py_value \<Rightarrow> string \<Rightarrow> py_value option" where
  "py_get d k = (case d of PyDict items \<Rightarrow> map_of items k | _ \<Rightarrow> None)"

text \<open>Reading a decimal number back: used to show that \<open>str\<close> loses nothing.\<close>

definition digit_value :: "char \<Rightarrow> nat" where
  "digit_value c =
     (case map_of (zip ''0123456789'' [0, 1, 2, 3, 4, 5, 6, 7, 8, 9]) c of
        Some d \<Rightarrow> d
      | None \<Rightarrow> 0)"

definition nat_of_str :: "string \<Rightarrow> nat" where
  "nat_of_str s = foldl (\<lambda>a c. 10 * a + digit_value c) 0 s"

text \<open>Two moments of the same calendar day.\<close>

definition same_day :: "datetime \<Rightarrow> datetime \<Rightarrow> bool" where
  "same_day d1 d2 \<longleftrightarrow> year d1 = year d2 \<and> month d1 = month d2 \<and> day d1 = day d2"

text \<open>\<open>fnmatch.fnmatchcase(name, pattern)\<close> for patterns made of \<open>*\<close>, \<open>?\<close> and literal
  characters; bracket expressions are not covered. It stands for \<open>fnmatch\<close> in the examples.\<close>

fun glob_match :: "string \<Rightarrow> string \<Rightarrow> bool" where
  "glob_match [] [] = True"
| "glob_match [] (c # cs) = False"
| "glob_match (p # ps) [] = (p = CHR ''*'' \<and> glob_match ps [])"
| "glob_match (p # ps) (c # cs) =
     (if p = CHR ''*'' then glob_match ps (c # cs) \<or> glob_match (p # ps) cs
      else (p = CHR ''?'' \<or> p = c) \<and> glob_match ps cs)"

text \<open>The override rule in the words of the design document: the first entry whose key
  equals the email up to case; failing that, the first entry in table order whose key,
  as a pattern, matches the email up to case; failing that, the default.\<close>

definition spec_bucket_url :: "settings \<Rightarrow> environment \<Rightarrow> user \<Rightarrow> string" where
  "spec_bucket_url st env usr =
     (case find (\<lambda>entry. lower (fst entry) = lower (email usr)) (UPLOAD_URL_EXCEPTIONS st) of
        Some entry \<Rightarrow> snd entry
      | None \<Rightarrow>
          (case find (\<lambda>entry. fnmatch env (lower (email usr)) (lower (fst entry)))
                  (UPLOAD_URL_EXCEPTIONS st) of
             Some entry \<Rightarrow> snd entry
           | None \<Rightarrow> UPLOAD_DEFAULT_URL st))"

text \<open>The vocabulary of the recovery scan: an upload is stuck at a time when it is
  incomplete, not cancelled, older than the age threshold and below the attempt ceiling;
  its throttle entry has the key \<open>reattempt:<upload-id>\<close>.\<close>

definition stuck :: "settings \<Rightarrow> datetime \<Rightarrow> upload_row \<Rightarrow> bool" where
  "stuck st t u \<longleftrightarrow>
     completed_at u = None \<and> cancelled_at u = None
     \<and> timestamp (created_at u) < timestamp t - UPLOAD_REATTEMPT_LIMIT_SECONDS st
     \<and> upload_attempts u < UPLOAD_REATTEMPT_LIMIT_TIMES st"

definition throttle_key :: "nat \<Rightarrow> string" where
  "throttle_key i = ''reattempt:'' @ str_nat i"

definition throttled :: "world \<Rightarrow> datetime \<Rightarrow> nat \<Rightarrow> bool" where
  "throttled w t i \<longleftrightarrow> cache_get (cache w) (timestamp t) (throttle_key i) = Some True"

text \<open>The upload ids one run of the loop, and one scan, hand to the task queue.\<close>

definition loop_redispatched :: "settings \<Rightarrow> datetime \<Rightarrow> upload_row list \<Rightarrow> world \<Rightarrow> nat list" where
  "loop_redispatched st t us w =
     drop (length (delayed w)) (delayed (reattempt_loop st t us w))"

definition redispatched :: "settings \<Rightarrow> datetime \<Rightarrow> world \<Rightarrow> nat list" where
  "redispatched st t w =
     drop (length (delayed w)) (delayed (reattempt_incomplete_uploads st t w))"

text \<open>A sequence of scans, each at its time and on the \<open>Upload\<close> table of that moment;
  the cache is carried from one scan to the next. The result lists the re-dispatches in
  order, each with the time of its scan.\<close>

fun scans :: "settings \<Rightarrow> (datetime \<times> upload_row list) list \<Rightarrow> world \<Rightarrow> (int \<times> nat) list" where
  "scans st [] w = []"
| "scans st ((t, table) # rest) w =
     map (\<lambda>i. (timestamp t, i)) (redispatched st t (w\<lparr>uploads := table\<rparr>))
       @ scans st rest (reattempt_incomplete_uploads st t (w\<lparr>uploads := table\<rparr>))"

text \<open>Re-dispatches of one upload are at least \<open>window\<close> seconds apart.\<close>

fun spaced :: "int \<Rightarrow> (int \<times> nat) list \<Rightarrow> bool" where
  "spaced window [] = True"
| "spaced window (ev # evs) =
     ((\<forall>ev'\<in>set evs. snd ev' = snd ev \<longrightarrow> fst ev + window \<le> fst ev') \<and> spaced window evs)"

section \<open>Example settings, requests and states\<close>

definition st0 :: settings where
  "st0 = \<lparr>DISALLOWED_SYMBOLS_SNIPPETS = [''xul.pdb''],
     UPLOAD_DEFAULT_URL = ''https://s3.example.com/default'',
     UPLOAD_URL_EXCEPTIONS = [], UPLOAD_INBOX_DIRECTORY = None,
     UPLOAD_REATTEMPT_LIMIT_SECONDS = 3600, UPLOAD_REATTEMPT_LIMIT_TIMES = 5\<rparr>"

definition good_members :: "file_listing list" where
  "good_members = [\<lparr>fl_name = ''app.pdb/ABCDEF0123456789/app.sym'', fl_size = 100\<rparr>,
                   \<lparr>fl_name = ''crash-Symbols.TXT'', fl_size = 7\<rparr>]"

definition denied_member :: file_listing where
  "denied_member = \<lparr>fl_name = ''xul.pdb/AB/xul.sym'', fl_size = 1\<rparr>"

definition readme_member :: file_listing where
  "readme_member = \<lparr>fl_name = ''readme.txt'', fl_size = 1\<rparr>"

definition empty_hex_member :: file_listing where
  "empty_hex_member = \<lparr>fl_name = ''a//b'', fl_size = 1\<rparr>"

definition env0 :: environment where
  "env0 = \<lparr>now = \<lparr>year = 2018, month = 3, day = 9, timestamp = 1520589600\<rparr>,
    get_archive_members = (\<lambda>content nm. Inr good_members),
    requests_get = (\<lambda>url. Inr ''bytes''),
    S3Bucket = (\<lambda>url. \<lparr>s3_name = url, s3_region = None, s3_endpoint_url = None\<rparr>),
    fnmatch = (\<lambda>nm pat. nm = pat),
    head_bucket = (\<lambda>b. None),
    put_object = (\<lambda>b k body. None),
    isdir = (\<lambda>p. False),
    isfile = (\<lambda>p k. True),
    time_time = (\<lambda>k. 1520589600 + int k)\<rparr>"

definition w0 :: world where
  "w0 = \<lparr>uploads = [], next_upload_id = 1, s3_calls = [], directories = [], files = [],
     sleeps = [], delayed = [], cache = []\<rparr>"

definition req0 :: request where
  "req0 = \<lparr>request_user = \<lparr>email = ''peter@example.com''\<rparr>,
     FILES = [(''symbols.zip'', \<lparr>file_size = 5, file_content = ''PKzip''\<rparr>)],
     POST_url = None, download_form = Inl []\<rparr>"

definition input0 :: upload_input where
  "input0 = \<lparr>in_name = ''symbols.zip'', in_upload = ''PKzip'', in_size = 5, in_url = None\<rparr>"

definition bucket0 :: s3bucket where
  "bucket0 = \<lparr>s3_name = ''https://s3.example.com/default'', s3_region = None,
               s3_endpoint_url = None\<rparr>"

definition upload0 :: upload_row where
  "upload0 =
     \<lparr>upload_id = 1, upload_user = \<lparr>email = ''peter@example.com''\<rparr>,
      filename = ''symbols.zip'', inbox_filepath = None,
      inbox_key = Some (inbox_key_for (now env0) good_members ''symbols.zip''),
      bucket_name = ''https://s3.example.com/default'', bucket_region = None,
      bucket_endpoint_url = None, upload_size = 5, download_url = None,
      completed_at = None, cancelled_at = None, created_at = now env0,
      upload_attempts = 0, skipped_keys = None\<rparr>"


definition env_404 :: environment where
  "env_404 = env0\<lparr>head_bucket := (\<lambda>b. Some (ClientError ''404''))\<rparr>"

definition env_403 :: environment where
  "env_403 = env0\<lparr>head_bucket := (\<lambda>b. Some (ClientError ''403''))\<rparr>"

definition later_same_day :: datetime where
  "later_same_day = \<lparr>year = 2018, month = 3, day = 9, timestamp = 1520593200\<rparr>"

definition next_day :: datetime where
  "next_day = \<lparr>year = 2018, month = 3, day = 10, timestamp = 1520676000\<rparr>"

definition env_glob :: environment where
  "env_glob = env0\<lparr>fnmatch := (\<lambda>nm pattern. glob_match pattern nm)\<rparr>"

definition st_mixed_case :: settings where
  "st_mixed_case =
     st0\<lparr>UPLOAD_URL_EXCEPTIONS :=
           [(''*@example.com'', ''https://s3.example.com/everyone''),
            (''Peter@Example.com'', ''https://s3.example.com/peter'')]\<rparr>"

definition st_lower_case :: settings where
  "st_lower_case =
     st0\<lparr>UPLOAD_URL_EXCEPTIONS :=
           [(''*@example.com'', ''https://s3.example.com/everyone''),
            (''peter@example.com'', ''https://s3.example.com/peter'')]\<rparr>"

definition stuck0 :: upload_row where
  "stuck0 =
     \<lparr>upload_id = 7, upload_user = \<lparr>email = ''peter@example.com''\<rparr>,
      filename = ''old.zip'', inbox_filepath = None,
      inbox_key = Some ''inbox/2018-03-01/0123456789ab/old.zip'',
      bucket_name = ''https://s3.example.com/default'', bucket_region = None,
      bucket_endpoint_url = None, upload_size = 5, download_url = None,
      completed_at = None, cancelled_at = None,
      created_at = \<lparr>year = 2018, month = 3, day = 1, timestamp = 1519898400\<rparr>,
      upload_attempts = 1, skipped_keys = None\<rparr>"

definition half_hour_later :: datetime where
  "half_hour_later = \<lparr>year = 2018, month = 3, day = 9, timestamp = 1520591400\<rparr>"

definition schedule0 :: "(datetime \<times> upload_row list) list" where
  "schedule0 = [(now env0, [stuck0]), (half_hour_later, [stuck0]), (later_same_day, [stuck0])]"

section \<open>Properties of the string operations\<close>

lemma py_in_sublist: "py_in snippet s \<longleftrightarrow> sublist snippet s"
  by (induction s) (simp_all add: sublist_Cons_right)

lemma split_from_not_Nil [simp]: "split_from sep seg s \<noteq> []"
  by (induction s arbitrary: seg) simp_all

lemma split_on_not_Nil [simp]: "split_on sep s \<noteq> []"
  by (simp add: split_on_def)

lemma length_split_from:
  "length (split_from sep seg s) = Suc (length (filter (\<lambda>c. c = sep) s))"
  by (induction s arbitrary: seg) simp_all

lemma length_split_on: "length (split_on sep s) = Suc (length (filter (\<lambda>c. c = sep) s))"
  by (simp add: split_on_def length_split_from)

lemma split_from_no_sep:
  "x \<in> set (split_from sep seg s) \<Longrightarrow> sep \<notin> set seg \<Longrightarrow> sep \<notin> set x"
proof (induction s arbitrary: seg)
  case Nil
  then show ?case by simp
next
  case (Cons c cs)
  show ?case
  proof (cases "c = sep")
    case True
    with Cons.prems have "x = seg \<or> x \<in> set (split_from sep [] cs)" by simp
    with Cons.prems(2) Cons.IH [of "[]"] show ?thesis by auto
  next
    case False
    with Cons.prems have "x \<in> set (split_from sep (seg @ [c]) cs)" by simp
    with False Cons.prems(2) Cons.IH [of "seg @ [c]"] show ?thesis by auto
  qed
qed

lemma split_on_no_sep: "x \<in> set (split_on sep s) \<Longrightarrow> sep \<notin> set x"
  using split_from_no_sep [of x sep "[]" s] by (simp add: split_on_def)

lemma join_split_from: "join [sep] (split_from sep seg s) = seg @ s"
proof (induction s arbitrary: seg)
  case Nil
  show ?case by simp
next
  case (Cons c cs)
  show ?case
  proof (cases "c = sep")
    case True
    obtain w ws where "split_from sep [] cs = w # ws"
      by (cases "split_from sep [] cs") simp_all
    with True Cons [of "[]"] show ?thesis by simp
  next
    case False
    with Cons [of "seg @ [c]"] show ?thesis by simp
  qed
qed

lemma join_split_on: "join [sep] (split_on sep s) = s"
  by (simp add: split_on_def join_split_from)

lemma split_from_no_sep_id: "sep \<notin> set x \<Longrightarrow> split_from sep seg x = [seg @ x]"
  by (induction x arbitrary: seg) auto

lemma split_from_append_sep:
  "sep \<notin> set x \<Longrightarrow> split_from sep seg (x @ sep # r) = (seg @ x) # split_from sep [] r"
  by (induction x arbitrary: seg) auto

lemma split_on_join:
  "segs \<noteq> [] \<Longrightarrow> \<forall>seg\<in>set segs. sep \<notin> set seg \<Longrightarrow> split_on sep (join [sep] segs) = segs"
proof (induction segs)
  case Nil
  then show ?case by simp
next
  case (Cons x xs)
  show ?case
  proof (cases xs)
    case Nil
    with Cons.prems show ?thesis by (simp add: split_on_def split_from_no_sep_id)
  next
    case (Cons y ys)
    with Cons.IH Cons.prems have "split_on sep (join [sep] xs) = xs" by simp
    with Cons Cons.prems show ?thesis by (simp add: split_on_def split_from_append_sep)
  qed
qed

lemma not_hex_characters_findall_empty:
  "not_hex_characters_findall s = [] \<longleftrightarrow> hexadecimal s"
  unfolding not_hex_characters_findall_def hexadecimal_def filter_empty_conv
  by (rule ball_cong) auto

lemma endswith_suffix: "endswith s suf \<longleftrightarrow> suffix suf s"
proof
  assume "endswith s suf"
  then have "s = take (length s - length suf) s @ suf"
    by (metis append_take_drop_id endswith_def)
  then show "suffix suf s" by (metis suffixI)
next
  assume "suffix suf s"
  then obtain p where "s = p @ suf" by (auto simp: suffix_def)
  then show "endswith s suf" by (simp add: endswith_def)
qed

section \<open>The listing validator\<close>

lemma find_snippet_None_iff:
  "find_snippet snippets nm = None \<longleftrightarrow> (\<forall>snippet\<in>set snippets. \<not> sublist snippet nm)"
  by (induction snippets) (simp_all add: py_in_sublist)

lemma find_snippet_None:
  "find_snippet (DISALLOWED_SYMBOLS_SNIPPETS st) nm = None \<longleftrightarrow> \<not> contains_disallowed st nm"
  by (simp add: find_snippet_None_iff contains_disallowed_def)

lemma find_snippet_find:
  "find_snippet snippets nm = List.find (\<lambda>snippet. sublist snippet nm) snippets"
  by (induction snippets) (simp_all add: py_in_sublist)

lemma check_Cons_acceptable:
  assumes "acceptable st m"
  shows "check_symbols_archive_file_listing st (m # ms)
           = check_symbols_archive_file_listing st ms"
proof -
  from assms have "find_snippet (DISALLOWED_SYMBOLS_SNIPPETS st) (fl_name m) = None"
    by (simp add: find_snippet_None acceptable_def)
  moreover from assms have "recognized_shape (fl_name m)"
    by (simp add: acceptable_def)
  ultimately show ?thesis
    by (auto simp: recognized_shape_def Let_def not_hex_characters_findall_empty endswith_suffix)
qed

lemma check_Cons_disallowed:
  "find_snippet (DISALLOWED_SYMBOLS_SNIPPETS st) (fl_name m) = Some snippet \<Longrightarrow>
   check_symbols_archive_file_listing st (m # ms) = Some (snippet_message snippet)"
  by simp

lemma check_Cons_unrecognized:
  assumes "\<not> contains_disallowed st (fl_name m)" and "\<not> recognized_shape (fl_name m)"
  shows "check_symbols_archive_file_listing st (m # ms) = Some unrecognized_message"
proof -
  from assms(1) have "find_snippet (DISALLOWED_SYMBOLS_SNIPPETS st) (fl_name m) = None"
    by (simp add: find_snippet_None)
  with assms(2) show ?thesis
    by (simp add: recognized_shape_def Let_def not_hex_characters_findall_empty endswith_suffix)
qed

lemma check_Cons_not_acceptable:
  "\<not> acceptable st m \<Longrightarrow> check_symbols_archive_file_listing st (m # ms) \<noteq> None"
proof (cases "find_snippet (DISALLOWED_SYMBOLS_SNIPPETS st) (fl_name m)")
  case None
  assume "\<not> acceptable st m"
  with None have "\<not> contains_disallowed st (fl_name m)" "\<not> recognized_shape (fl_name m)"
    by (simp_all add: acceptable_def find_snippet_None)
  then show ?thesis using check_Cons_unrecognized [of st m ms] by simp
next
  case (Some snippet)
  then show ?thesis using check_Cons_disallowed [of st m snippet ms] by simp
qed

lemma check_None_iff:
  "check_symbols_archive_file_listing st ms = None \<longleftrightarrow> (\<forall>m\<in>set ms. acceptable st m)"
proof (induction ms)
  case Nil
  show ?case by simp
next
  case (Cons m ms)
  show ?case
  proof (cases "acceptable st m")
    case True
    with Cons show ?thesis
      by (simp add: check_Cons_acceptable del: check_symbols_archive_file_listing.simps)
  next
    case False
    then show ?thesis using check_Cons_not_acceptable [of st m ms] by auto
  qed
qed

lemma check_skip_acceptable:
  "\<forall>p\<in>set pre. acceptable st p \<Longrightarrow>
   check_symbols_archive_file_listing st (pre @ ms) = check_symbols_archive_file_listing st ms"
  by (induction pre)
    (simp_all add: check_Cons_acceptable del: check_symbols_archive_file_listing.simps)

subsection \<open>Example members\<close>

lemma good_members_acceptable: "\<forall>p\<in>set good_members. acceptable st0 p"
  by (simp add: good_members_def acceptable_def contains_disallowed_def st0_def
      py_in_sublist [symmetric] recognized_shape_def split_on_def hexadecimal_def
      lower_def lower_char_def uppercase_letters_def lowercase_letters_def suffix_to_prefix)

lemma denied_member_disallowed: "contains_disallowed st0 (fl_name denied_member)"
  by (simp add: denied_member_def contains_disallowed_def st0_def py_in_sublist [symmetric])

lemma readme_member_unrecognized:
  "\<not> contains_disallowed st0 (fl_name readme_member) \<and> \<not> recognized_shape (fl_name readme_member)"
  by (simp add: readme_member_def contains_disallowed_def st0_def py_in_sublist [symmetric]
      recognized_shape_def split_on_def lower_def lower_char_def uppercase_letters_def lowercase_letters_def suffix_to_prefix)

lemma find_denied_member:
  "List.find (\<lambda>sn. sublist sn (fl_name denied_member)) (DISALLOWED_SYMBOLS_SNIPPETS st0) = Some s
   \<longleftrightarrow> s = ''xul.pdb''"
  by (auto simp add: denied_member_def st0_def py_in_sublist [symmetric])

text \<open>
  Claim C2. The validator returns no error exactly when every member contains no
  disallowed snippet and has a recognized shape (three \<open>/\<close>-separated segments with a
  hexadecimal middle segment, or one segment ending in \<open>-symbols.txt\<close> up to case). After
  a prefix of acceptable members, a member containing a disallowed snippet yields the
  message \<open>Content of archive file contains the snippet '...' which is not allowed\<close> with
  the first configured snippet found in it between the quotes, whatever its shape and
  whatever follows; a member without snippet and of any other shape yields the message
  \<open>Unrecognized file pattern. Should only be <module>/<hex>/<file> or <name>-symbols.txt
  and nothing else.\<close> So the first violating member decides the error.
\<close>

theorem check_symbols_archive_file_listing_first_violation:
  "(check_symbols_archive_file_listing st ms = None \<longleftrightarrow>
      (\<forall>m\<in>set ms. \<not> contains_disallowed st (fl_name m) \<and> recognized_shape (fl_name m)))
   \<and> ((\<forall>p\<in>set pre. acceptable st p) \<and> contains_disallowed st (fl_name m) \<longrightarrow>
        (\<exists>snippet. List.find (\<lambda>sn. sublist sn (fl_name m)) (DISALLOWED_SYMBOLS_SNIPPETS st)
                      = Some snippet
           \<and> check_symbols_archive_file_listing st (pre @ m # post)
               = Some (''Content of archive file contains the snippet '' @ [CHR 0x27]
                        @ snippet @ [CHR 0x27] @ '' which is not allowed'')))
   \<and> ((\<forall>p\<in>set pre. acceptable st p)
        \<and> \<not> contains_disallowed st (fl_name m) \<and> \<not> recognized_shape (fl_name m) \<longrightarrow>
        check_symbols_archive_file_listing st (pre @ m # post)
          = Some (''Unrecognized file pattern. Should only be <module>/<hex>/<file> ''
                   @ ''or <name>-symbols.txt and nothing else.''))"
proof (intro conjI impI)
  show "check_symbols_archive_file_listing st ms = None \<longleftrightarrow>
      (\<forall>m\<in>set ms. \<not> contains_disallowed st (fl_name m) \<and> recognized_shape (fl_name m))"
    by (simp add: check_None_iff acceptable_def)
next
  assume h: "(\<forall>p\<in>set pre. acceptable st p) \<and> contains_disallowed st (fl_name m)"
  then have pre: "\<forall>p\<in>set pre. acceptable st p"
    and "contains_disallowed st (fl_name m)"
    by blast+
  then have "find_snippet (DISALLOWED_SYMBOLS_SNIPPETS st) (fl_name m) \<noteq> None"
    by (simp add: find_snippet_None)
  then obtain snippet
    where s: "find_snippet (DISALLOWED_SYMBOLS_SNIPPETS st) (fl_name m) = Some snippet"
    by blast
  have "check_symbols_archive_file_listing st (pre @ m # post)
          = check_symbols_archive_file_listing st (m # post)"
    by (rule check_skip_acceptable [OF pre])
  also have "\<dots> = Some (snippet_message snippet)"
    by (rule check_Cons_disallowed [OF s])
  also have "snippet_message snippet
      = ''Content of archive file contains the snippet '' @ [CHR 0x27]
          @ snippet @ [CHR 0x27] @ '' which is not allowed''"
    by (simp add: snippet_message_def)
  finally have "check_symbols_archive_file_listing st (pre @ m # post)
      = Some (''Content of archive file contains the snippet '' @ [CHR 0x27]
               @ snippet @ [CHR 0x27] @ '' which is not allowed'')" .
  moreover from s
  have "List.find (\<lambda>sn. sublist sn (fl_name m)) (DISALLOWED_SYMBOLS_SNIPPETS st) = Some snippet"
    by (simp only: find_snippet_find)
  ultimately
  show "\<exists>snippet. List.find (\<lambda>sn. sublist sn (fl_name m)) (DISALLOWED_SYMBOLS_SNIPPETS st)
                         = Some snippet
              \<and> check_symbols_archive_file_listing st (pre @ m # post)
                  = Some (''Content of archive file contains the snippet '' @ [CHR 0x27]
                           @ snippet @ [CHR 0x27] @ '' which is not allowed'')"
    by blast
next
  assume h: "(\<forall>p\<in>set pre. acceptable st p)
        \<and> \<not> contains_disallowed st (fl_name m) \<and> \<not> recognized_shape (fl_name m)"
  then have pre: "\<forall>p\<in>set pre. acceptable st p"
    and a: "\<not> contains_disallowed st (fl_name m)"
    and b: "\<not> recognized_shape (fl_name m)"
    by blast+
  have "check_symbols_archive_file_listing st (pre @ m # post)
          = check_symbols_archive_file_listing st (m # post)"
    by (rule check_skip_acceptable [OF pre])
  also have "\<dots> = Some unrecognized_message"
    by (rule check_Cons_unrecognized [OF a b])
  also have "unrecognized_message
      = ''Unrecognized file pattern. Should only be <module>/<hex>/<file> ''
          @ ''or <name>-symbols.txt and nothing else.''"
    by (simp only: unrecognized_message_def)
  finally show "check_symbols_archive_file_listing st (pre @ m # post)
      = Some (''Unrecognized file pattern. Should only be <module>/<hex>/<file> ''
               @ ''or <name>-symbols.txt and nothing else.'')" .
qed

theorem check_symbols_archive_file_listing_first_violation_witness:
  "list_all (acceptable st0) good_members
   \<and> check_symbols_archive_file_listing st0 good_members = None
   \<and> contains_disallowed st0 (fl_name denied_member)
   \<and> check_symbols_archive_file_listing st0 (good_members @ denied_member # [readme_member])
       = Some (''Content of archive file contains the snippet '' @ [CHR 0x27]
                @ ''xul.pdb'' @ [CHR 0x27] @ '' which is not allowed'')
   \<and> \<not> contains_disallowed st0 (fl_name readme_member)
   \<and> \<not> recognized_shape (fl_name readme_member)
   \<and> check_symbols_archive_file_listing st0 (good_members @ readme_member # [denied_member])
       = Some (''Unrecognized file pattern. Should only be <module>/<hex>/<file> ''
                @ ''or <name>-symbols.txt and nothing else.'')"
proof -
  note g = good_members_acceptable
  note d = denied_member_disallowed
  note r = readme_member_unrecognized
  note t1 = check_symbols_archive_file_listing_first_violation
              [of st0 good_members good_members denied_member "[readme_member]"]
  note t2 = check_symbols_archive_file_listing_first_violation
              [of st0 good_members good_members readme_member "[denied_member]"]
  from t1 g have 1: "check_symbols_archive_file_listing st0 good_members = None"
    unfolding acceptable_def by blast
  from t1 g d have "\<exists>snippet.
      List.find (\<lambda>sn. sublist sn (fl_name denied_member)) (DISALLOWED_SYMBOLS_SNIPPETS st0)
        = Some snippet
      \<and> check_symbols_archive_file_listing st0 (good_members @ denied_member # [readme_member])
          = Some (''Content of archive file contains the snippet '' @ [CHR 0x27]
                   @ snippet @ [CHR 0x27] @ '' which is not allowed'')"
    by blast
  then have 2: "check_symbols_archive_file_listing st0 (good_members @ denied_member # [readme_member])
       = Some (''Content of archive file contains the snippet '' @ [CHR 0x27]
                @ ''xul.pdb'' @ [CHR 0x27] @ '' which is not allowed'')"
    unfolding find_denied_member by blast
  from t2 g r have 3: "check_symbols_archive_file_listing st0
      (good_members @ readme_member # [denied_member])
       = Some (''Unrecognized file pattern. Should only be <module>/<hex>/<file> ''
                @ ''or <name>-symbols.txt and nothing else.'')"
    by blast
  from g have "list_all (acceptable st0) good_members"
    by (simp only: list_all_iff)
  with d r 1 2 3 show ?thesis by blast
qed

text \<open>
  Claim C9. A member whose name splits on \<open>/\<close> into three segments with an empty middle
  segment, and that contains no disallowed snippet, is accepted: the validator moves on
  to the rest of the listing, and a listing of this member alone has no error.
\<close>

theorem empty_middle_segment_accepted:
  assumes "split_on CHR ''/'' (fl_name m) = [a, [], b]"
    and "\<not> contains_disallowed st (fl_name m)"
  shows "check_symbols_archive_file_listing st [m] = None
   \<and> check_symbols_archive_file_listing st (m # ms) = check_symbols_archive_file_listing st ms"
proof -
  from assms(1) have "recognized_shape (fl_name m)"
    by (simp add: recognized_shape_def hexadecimal_def)
  with assms(2) have "acceptable st m"
    by (simp add: acceptable_def)
  then show ?thesis
    using check_Cons_acceptable [of st m "[]"] check_Cons_acceptable [of st m ms]
    by (simp del: check_symbols_archive_file_listing.simps(2))
qed

theorem empty_middle_segment_accepted_witness:
  "split_on CHR ''/'' (fl_name empty_hex_member) = [''a'', [], ''b'']
   \<and> \<not> contains_disallowed st0 (fl_name empty_hex_member)
   \<and> check_symbols_archive_file_listing st0 [empty_hex_member] = None"
proof -
  have 1: "split_on CHR ''/'' (fl_name empty_hex_member) = [''a'', [], ''b'']"
    by (simp add: empty_hex_member_def split_on_def)
  have 2: "\<not> contains_disallowed st0 (fl_name empty_hex_member)"
    by (simp add: empty_hex_member_def contains_disallowed_def st0_def py_in_sublist [symmetric])
  from empty_middle_segment_accepted [OF 1 2] 1 2 show ?thesis by blast
qed

section \<open>The responses of the view\<close>

lemma store_and_dispatch_201:
  assumes "fst (store_and_dispatch st env req inp fl w) = Returned (JsonResponse body 201)"
  shows "\<exists>upload_obj. body = PyDict [(''upload'', serialize_upload upload_obj)]"
  using assms
  by (auto simp: store_and_dispatch_def Let_def
      split: option.splits exn.splits if_splits prod.splits sum.splits)

lemma upload_archive_201:
  assumes "fst (upload_archive st env req w) = Returned (JsonResponse body 201)"
  shows "\<exists>upload_obj. body = PyDict [(''upload'', serialize_upload upload_obj)]"
proof (cases "read_upload env req")
  case (Inl out)
  with assms have "out = Returned (JsonResponse body 201)"
    by (simp add: upload_archive_def)
  with Inl show ?thesis
    by (auto simp: read_upload_def error_response_def
        split: list.splits if_splits sum.splits prod.splits)
next
  case (Inr inp)
  with assms show ?thesis
    by (auto simp: upload_archive_def error_response_def dest: store_and_dispatch_201
        split: if_splits sum.splits archive_error.splits option.splits list.splits)
qed

text \<open>
  Claim C10. In the serialized upload, the field \<open>skipped_keys\<close> is a list: the skipped
  keys of the record, and the empty list when the record has none or an empty list; it is
  never \<open>None\<close>. The body of every response with status 201 is \<open>{'upload': ...}\<close> with
  such a serialized upload.
\<close>

theorem serialize_upload_skipped_keys_list:
  "py_get (serialize_upload upload) ''skipped_keys''
     = Some (PyList (map PyStr (case skipped_keys upload of None \<Rightarrow> [] | Some ks \<Rightarrow> ks)))
   \<and> (fst (upload_archive st env req w) = Returned (JsonResponse body 201) \<longrightarrow>
        (\<exists>upload_obj ks. body = PyDict [(''upload'', serialize_upload upload_obj)]
           \<and> py_get (serialize_upload upload_obj) ''skipped_keys'' = Some (PyList ks)))"
proof -
  have 1: "py_get (serialize_upload u) ''skipped_keys''
     = Some (PyList (map PyStr (case skipped_keys u of None \<Rightarrow> [] | Some ks \<Rightarrow> ks)))" for u
    by (simp add: py_get_def serialize_upload_def split: option.splits)
  show ?thesis
  proof (intro conjI impI)
    show "py_get (serialize_upload upload) ''skipped_keys''
     = Some (PyList (map PyStr (case skipped_keys upload of None \<Rightarrow> [] | Some ks \<Rightarrow> ks)))"
      by (rule 1)
  next
    assume "fst (upload_archive st env req w) = Returned (JsonResponse body 201)"
    then obtain upload_obj where "body = PyDict [(''upload'', serialize_upload upload_obj)]"
      using upload_archive_201 by blast
    with 1 [of upload_obj]
    show "\<exists>upload_obj ks. body = PyDict [(''upload'', serialize_upload upload_obj)]
           \<and> py_get (serialize_upload upload_obj) ''skipped_keys'' = Some (PyList ks)"
      by blast
  qed
qed

lemma upload_archive_validated:
  assumes "read_upload env req = Inr inp" and "in_size inp \<noteq> 0"
    and "get_archive_members env (in_upload inp) (in_name inp) = Inr fl"
    and "check_symbols_archive_file_listing st fl = None"
  shows "upload_archive st env req w = store_and_dispatch st env req inp fl w"
  using assms by (simp add: upload_archive_def)

lemma store_and_dispatch_head_404:
  assumes "head_bucket env (s3_name (get_bucket_info st env (request_user req)))
             = Some (ClientError ''404'')"
  shows "store_and_dispatch st env req inp fl w =
     (Raised (ImproperlyConfigured (s3_name (get_bucket_info st env (request_user req)))
                (s3_region (get_bucket_info st env (request_user req)))
                (s3_endpoint_url (get_bucket_info st env (request_user req)))),
      w\<lparr>s3_calls := s3_calls w @ [HeadBucket (s3_name (get_bucket_info st env (request_user req)))]\<rparr>)"
  using assms by (simp add: store_and_dispatch_def Let_def)

lemma store_and_dispatch_head_error:
  assumes "head_bucket env (s3_name (get_bucket_info st env (request_user req))) = Some e"
    and "e \<noteq> ClientError ''404''"
  shows "store_and_dispatch st env req inp fl w =
     (Raised e,
      w\<lparr>s3_calls := s3_calls w @ [HeadBucket (s3_name (get_bucket_info st env (request_user req)))]\<rparr>)"
  using assms by (simp add: store_and_dispatch_def Let_def split: exn.splits)

lemma store_and_dispatch_bucket_mode:
  assumes "head_bucket env (s3_name (get_bucket_info st env (request_user req))) = None"
    and "UPLOAD_INBOX_DIRECTORY st = None"
    and "put_object env (s3_name (get_bucket_info st env (request_user req)))
           (inbox_key_for (now env) fl (in_name inp)) (in_upload inp) = None"
    and "time_time env 1 \<noteq> time_time env 0"
  shows "fst (store_and_dispatch st env req inp fl w) =
     Returned (JsonResponse (PyDict [(''upload'', serialize_upload
       (fst (Upload_objects_create env req inp (get_bucket_info st env (request_user req)) None
          (Some (inbox_key_for (now env) fl (in_name inp)))
          (w\<lparr>s3_calls := s3_calls w
               @ [HeadBucket (s3_name (get_bucket_info st env (request_user req)))]\<rparr>))))]) 201)"
  using assms by (simp add: store_and_dispatch_def store_upload_def Let_def split_beta)

lemma read_upload_req0: "read_upload env req0 = Inr input0"
  by (simp add: read_upload_def req0_def input0_def)

lemma get_archive_members_env0:
  "get_archive_members env0 content nm = Inr good_members"
  by (simp add: env0_def)

lemma check_good_members: "check_symbols_archive_file_listing st0 good_members = None"
  using good_members_acceptable by (simp only: check_None_iff)

lemma get_bucket_info_req0: "get_bucket_info st0 env0 (request_user req0) = bucket0"
  by (simp add: get_bucket_info_def get_bucket_url_def st0_def env0_def req0_def bucket0_def)

lemma Upload_objects_create_req0:
  "fst (Upload_objects_create env0 req0 input0 bucket0 None
          (Some (inbox_key_for (now env0) good_members ''symbols.zip''))
          (w0\<lparr>s3_calls := cs\<rparr>)) = upload0"
  by (simp add: Upload_objects_create_def Let_def upload0_def req0_def input0_def bucket0_def
      w0_def)

lemma upload_archive_req0:
  "fst (upload_archive st0 env0 req0 w0)
     = Returned (JsonResponse (PyDict [(''upload'', serialize_upload upload0)]) 201)"
proof -
  have "upload_archive st0 env0 req0 w0 = store_and_dispatch st0 env0 req0 input0 good_members w0"
    by (rule upload_archive_validated [OF read_upload_req0 _ get_archive_members_env0
          check_good_members]) (simp add: input0_def)
  moreover have "in_name input0 = ''symbols.zip''"
    by (simp add: input0_def)
  moreover have "head_bucket env0 (s3_name bucket0) = None"
    "put_object env0 (s3_name bucket0) k (in_upload input0) = None" for k
    by (simp_all add: env0_def)
  moreover have "UPLOAD_INBOX_DIRECTORY st0 = None"
    by (simp add: st0_def)
  moreover have "time_time env0 1 \<noteq> time_time env0 0"
    by (simp add: env0_def)
  ultimately show ?thesis
    using store_and_dispatch_bucket_mode [of env0 st0 req0 good_members input0 w0]
    by (simp add: get_bucket_info_req0 Upload_objects_create_req0)
qed

theorem serialize_upload_skipped_keys_list_witness:
  "fst (upload_archive st0 env0 req0 w0)
     = Returned (JsonResponse (PyDict [(''upload'', serialize_upload upload0)]) 201)
   \<and> py_get (serialize_upload upload0) ''skipped_keys'' = Some (PyList [])"
proof -
  have "skipped_keys upload0 = None"
    by (simp add: upload0_def)
  with serialize_upload_skipped_keys_list [of upload0 st0 env0 req0 w0 "PyDict []"]
  have "py_get (serialize_upload upload0) ''skipped_keys'' = Some (PyList [])"
    by simp
  with upload_archive_req0 show ?thesis by (rule conjI)
qed

text \<open>When the two readings of the clock around the write are the same, the division of
  the size by the elapsed time raises: the view answers with \<open>ZeroDivisionError\<close> instead
  of 201, keeps no \<open>Upload\<close> record and starts no task, although the inbox file has been
  written or the object put.\<close>

lemma store_and_dispatch_clock_stalled:
  assumes "head_bucket env (s3_name (get_bucket_info st env (request_user req))) = None"
    and "UPLOAD_INBOX_DIRECTORY st \<noteq> None
         \<or> put_object env (s3_name (get_bucket_info st env (request_user req)))
              (inbox_key_for (now env) fl (in_name inp)) (in_upload inp) = None"
    and "UPLOAD_INBOX_DIRECTORY st \<noteq> Some []"
    and "time_time env 1 = time_time env 0"
  shows "fst (store_and_dispatch st env req inp fl w) = Raised ZeroDivisionError"
    and "uploads (snd (store_and_dispatch st env req inp fl w)) = uploads w"
    and "delayed (snd (store_and_dispatch st env req inp fl w)) = delayed w"
  using assms
  by (auto simp: store_and_dispatch_def store_upload_def Let_def split_beta
      split: option.splits list.splits)

lemma upload_archive_clock_stalled:
  "fst (upload_archive st0 (env0\<lparr>time_time := (\<lambda>k. 1520589600)\<rparr>) req0 w0)
     = Raised ZeroDivisionError"
proof -
  let ?env = "env0\<lparr>time_time := (\<lambda>k. 1520589600)\<rparr>"
  have g: "get_archive_members ?env content nm = Inr good_members" for content nm
    by (simp add: env0_def)
  have "upload_archive st0 ?env req0 w0 = store_and_dispatch st0 ?env req0 input0 good_members w0"
    by (rule upload_archive_validated [OF read_upload_req0 _ g check_good_members])
      (simp add: input0_def)
  moreover have "head_bucket ?env b = None" "put_object ?env b k body = None" for b k body
    by (simp_all add: env0_def)
  moreover have "UPLOAD_INBOX_DIRECTORY st0 = None"
    by (simp add: st0_def)
  ultimately show ?thesis
    using store_and_dispatch_clock_stalled(1) [of ?env st0 req0 good_members input0 w0]
    by simp
qed



section \<open>The existence probe\<close>

text \<open>
  Claim C4. \<open>exists()\<close> gives false exactly on a not-found answer, true exactly on
  success, and raises \<open>StorageError\<close> exactly on an authorization denial or a transport
  failure: an absent bucket and an inaccessible one are told apart.
\<close>

theorem storage_bucket_exists_outcomes:
  "(storage_bucket_exists bucket response = Inr False \<longleftrightarrow> response = ProbeNotFound)
   \<and> (storage_bucket_exists bucket response = Inr True \<longleftrightarrow> response = ProbeSuccess)
   \<and> ((\<exists>kind message. storage_bucket_exists bucket response
          = Inl (StorageError (sb_backend bucket) (sb_base_url bucket) kind message))
        \<longleftrightarrow> (\<exists>kind message. response = ProbeAuthorizationDenied kind message
                              \<or> response = ProbeTransportFailure kind message))"
  by (cases response) (simp_all add: storage_bucket_exists_def)

section \<open>Waiting for the inbox file\<close>

text \<open>The loop ends at the first of its five checks that sees the file; when none does,
  it has slept five times.\<close>

lemma wait_for_file_first_visible:
  "wait_for_file visible 0 [] =
     (if visible 0 then (0, [])
      else if visible 1 then (1, [1])
      else if visible 2 then (2, [1, 2])
      else if visible 3 then (3, [1, 2, 3])
      else if visible 4 then (4, [1, 2, 3, 4])
      else (5, [1, 2, 3, 4, 5]))"
proof -
  have 0: "wait_for_file visible 0 []
             = (if visible 0 then (0, []) else wait_for_file visible 1 [1])"
    by (subst wait_for_file.simps) (simp add: eval_nat_numeral)
  have 1: "wait_for_file visible 1 [1]
             = (if visible 1 then (1, [1]) else wait_for_file visible 2 [1, 2])"
    by (subst wait_for_file.simps) (simp add: eval_nat_numeral)
  have 2: "wait_for_file visible 2 [1, 2]
             = (if visible 2 then (2, [1, 2]) else wait_for_file visible 3 [1, 2, 3])"
    by (subst wait_for_file.simps) (simp add: eval_nat_numeral)
  have 3: "wait_for_file visible 3 [1, 2, 3]
             = (if visible 3 then (3, [1, 2, 3]) else wait_for_file visible 4 [1, 2, 3, 4])"
    by (subst wait_for_file.simps) (simp add: eval_nat_numeral)
  have 4: "wait_for_file visible 4 [1, 2, 3, 4]
             = (if visible 4 then (4, [1, 2, 3, 4]) else (5, [1, 2, 3, 4, 5]))"
    by (subst wait_for_file.simps) (simp add: eval_nat_numeral)
  show ?thesis
    by (simp only: 0 1 2 3 4)
qed

lemma reattempt_loop_keeps:
  "uploads (reattempt_loop st t us w) = uploads w"
  "s3_calls (reattempt_loop st t us w) = s3_calls w"
  "files (reattempt_loop st t us w) = files w"
  "directories (reattempt_loop st t us w) = directories w"
  "sleeps (reattempt_loop st t us w) = sleeps w"
  by (induction us arbitrary: w) (simp_all add: Let_def)

lemma reattempt_incomplete_uploads_keeps:
  "uploads (reattempt_incomplete_uploads st t w) = uploads w"
  "s3_calls (reattempt_incomplete_uploads st t w) = s3_calls w"
  "files (reattempt_incomplete_uploads st t w) = files w"
  "directories (reattempt_incomplete_uploads st t w) = directories w"
  "sleeps (reattempt_incomplete_uploads st t w) = sleeps w"
  by (simp_all add: reattempt_incomplete_uploads_def reattempt_loop_keeps)

text \<open>In filesystem mode, when the clock has moved during the write, the request is
  accepted whatever the checks answer.\<close>

lemma store_and_dispatch_filesystem_mode:
  assumes "head_bucket env (s3_name (get_bucket_info st env (request_user req))) = None"
    and "UPLOAD_INBOX_DIRECTORY st = Some (c # cs)"
    and "time_time env 1 \<noteq> time_time env 0"
  shows "\<exists>upload_obj w'. store_and_dispatch st env req inp fl w
           = (Returned (JsonResponse (PyDict [(''upload'', serialize_upload upload_obj)]) 201), w')
         \<and> inbox_filepath upload_obj
             = Some (os_path_join (c # cs) (inbox_key_for (now env) fl (in_name inp)))
         \<and> sleeps w' = sleeps w
             @ snd (wait_for_file
                      (isfile env (os_path_join (c # cs) (inbox_key_for (now env) fl (in_name inp))))
                      0 [])"
  using assms
  by (auto simp: store_and_dispatch_def store_upload_def Let_def split_beta
      Upload_objects_create_def reattempt_incomplete_uploads_keeps)

text \<open>
  Claim C7. When the inbox file never becomes visible, the view sleeps 1, 2, 3, 4 and 5
  seconds: after the fifth sleep it leaves the loop without another check. The claimed
  backoff is 1, 2, 3, 4 seconds.
\<close>

theorem wait_for_file_never_visible:
  "wait_for_file (\<lambda>k. False) 0 [] = (5, [1, 2, 3, 4, 5])"
  by (simp add: wait_for_file.simps)

section \<open>The bucket check\<close>

lemma upload_archive_paths:
  "upload_archive st env req w = (fst (upload_archive st env req w), w)
   \<or> (\<exists>inp fl. upload_archive st env req w = store_and_dispatch st env req inp fl w)"
  by (auto simp: upload_archive_def
      split: sum.splits archive_error.splits option.splits list.splits)

lemma store_and_dispatch_head_failed:
  assumes "head_bucket env (s3_name (get_bucket_info st env (request_user req))) \<noteq> None"
  shows "snd (store_and_dispatch st env req inp fl w)
     = w\<lparr>s3_calls := s3_calls w
            @ [HeadBucket (s3_name (get_bucket_info st env (request_user req)))]\<rparr>"
  using assms
  by (auto simp: store_and_dispatch_def Let_def split: option.splits exn.splits)

text \<open>
  Claim C5. For a request that passed validation, the bucket of the requester is probed
  with \<open>head_bucket\<close> before anything is stored. When the probe raises \<open>ClientError\<close> with
  code 404, the view raises \<open>ImproperlyConfigured\<close> (an exception, not a 400 response);
  any other exception of the probe leaves the view as it is. In both cases the only change
  of the state is the one \<open>HeadBucket\<close> call: no retry, no \<open>Upload\<close> record, no inbox
  file, no task. And for every request, whenever the probe of its bucket fails the state
  is unchanged or changed by that one call only.
\<close>

theorem missing_bucket_is_improperly_configured:
  assumes "bucket_info = get_bucket_info st env (request_user req)"
  shows
    "(read_upload env req = Inr inp \<and> in_size inp \<noteq> 0
        \<and> get_archive_members env (in_upload inp) (in_name inp) = Inr fl
        \<and> check_symbols_archive_file_listing st fl = None
        \<and> head_bucket env (s3_name bucket_info) = Some (ClientError ''404'') \<longrightarrow>
      upload_archive st env req w
        = (Raised (ImproperlyConfigured (s3_name bucket_info) (s3_region bucket_info)
                     (s3_endpoint_url bucket_info)),
           w\<lparr>s3_calls := s3_calls w @ [HeadBucket (s3_name bucket_info)]\<rparr>))
     \<and> (read_upload env req = Inr inp \<and> in_size inp \<noteq> 0
        \<and> get_archive_members env (in_upload inp) (in_name inp) = Inr fl
        \<and> check_symbols_archive_file_listing st fl = None
        \<and> head_bucket env (s3_name bucket_info) = Some e \<and> e \<noteq> ClientError ''404'' \<longrightarrow>
      upload_archive st env req w
        = (Raised e, w\<lparr>s3_calls := s3_calls w @ [HeadBucket (s3_name bucket_info)]\<rparr>))
     \<and> (head_bucket env (s3_name bucket_info) \<noteq> None \<longrightarrow>
        snd (upload_archive st env req w) = w
        \<or> snd (upload_archive st env req w)
            = w\<lparr>s3_calls := s3_calls w @ [HeadBucket (s3_name bucket_info)]\<rparr>)"
proof (intro conjI impI)
  assume "read_upload env req = Inr inp \<and> in_size inp \<noteq> 0
        \<and> get_archive_members env (in_upload inp) (in_name inp) = Inr fl
        \<and> check_symbols_archive_file_listing st fl = None
        \<and> head_bucket env (s3_name bucket_info) = Some (ClientError ''404'')"
  then have "upload_archive st env req w = store_and_dispatch st env req inp fl w"
    and "head_bucket env (s3_name bucket_info) = Some (ClientError ''404'')"
    by (simp_all add: upload_archive_validated)
  then show "upload_archive st env req w
        = (Raised (ImproperlyConfigured (s3_name bucket_info) (s3_region bucket_info)
                     (s3_endpoint_url bucket_info)),
           w\<lparr>s3_calls := s3_calls w @ [HeadBucket (s3_name bucket_info)]\<rparr>)"
    unfolding assms by (simp add: store_and_dispatch_head_404)
next
  assume "read_upload env req = Inr inp \<and> in_size inp \<noteq> 0
        \<and> get_archive_members env (in_upload inp) (in_name inp) = Inr fl
        \<and> check_symbols_archive_file_listing st fl = None
        \<and> head_bucket env (s3_name bucket_info) = Some e \<and> e \<noteq> ClientError ''404''"
  then have "upload_archive st env req w = store_and_dispatch st env req inp fl w"
    and "head_bucket env (s3_name bucket_info) = Some e" and "e \<noteq> ClientError ''404''"
    by (simp_all add: upload_archive_validated)
  then show "upload_archive st env req w
        = (Raised e, w\<lparr>s3_calls := s3_calls w @ [HeadBucket (s3_name bucket_info)]\<rparr>)"
    unfolding assms by (simp add: store_and_dispatch_head_error)
next
  assume h: "head_bucket env (s3_name bucket_info) \<noteq> None"
  from upload_archive_paths [of st env req w]
  show "snd (upload_archive st env req w) = w
        \<or> snd (upload_archive st env req w)
            = w\<lparr>s3_calls := s3_calls w @ [HeadBucket (s3_name bucket_info)]\<rparr>"
  proof
    assume "upload_archive st env req w = (fst (upload_archive st env req w), w)"
    then have "snd (upload_archive st env req w) = w"
      by (metis snd_conv)
    then show ?thesis ..
  next
    assume "\<exists>inp fl. upload_archive st env req w = store_and_dispatch st env req inp fl w"
    then obtain inp' fl'
      where "upload_archive st env req w = store_and_dispatch st env req inp' fl' w"
      by blast
    with h have "snd (upload_archive st env req w)
            = w\<lparr>s3_calls := s3_calls w @ [HeadBucket (s3_name bucket_info)]\<rparr>"
      unfolding assms by (simp add: store_and_dispatch_head_failed)
    then show ?thesis ..
  qed
qed

lemma head_bucket_env_404: "head_bucket env_404 b = Some (ClientError ''404'')"
  by (simp add: env_404_def)

lemma head_bucket_env_403: "head_bucket env_403 b = Some (ClientError ''403'')"
  by (simp add: env_403_def)

lemma get_archive_members_env_404:
  "get_archive_members env_404 content nm = Inr good_members"
  by (simp add: env_404_def env0_def)

lemma get_archive_members_env_403:
  "get_archive_members env_403 content nm = Inr good_members"
  by (simp add: env_403_def env0_def)

lemma get_bucket_info_env_404: "get_bucket_info st0 env_404 (request_user req0) = bucket0"
  by (simp add: get_bucket_info_def get_bucket_url_def st0_def env_404_def env0_def req0_def
      bucket0_def)

lemma get_bucket_info_env_403: "get_bucket_info st0 env_403 (request_user req0) = bucket0"
  by (simp add: get_bucket_info_def get_bucket_url_def st0_def env_403_def env0_def req0_def
      bucket0_def)

theorem missing_bucket_is_improperly_configured_witness:
  "upload_archive st0 env_404 req0 w0
     = (Raised (ImproperlyConfigured ''https://s3.example.com/default'' None None),
        w0\<lparr>s3_calls := s3_calls w0 @ [HeadBucket ''https://s3.example.com/default'']\<rparr>)
   \<and> upload_archive st0 env_403 req0 w0
     = (Raised (ClientError ''403''),
        w0\<lparr>s3_calls := s3_calls w0 @ [HeadBucket ''https://s3.example.com/default'']\<rparr>)"
proof -
  have b4: "bucket0 = get_bucket_info st0 env_404 (request_user req0)"
    and b3: "bucket0 = get_bucket_info st0 env_403 (request_user req0)"
    by (simp_all add: get_bucket_info_env_404 get_bucket_info_env_403)
  have v: "in_size input0 \<noteq> 0"
    "get_archive_members env_404 (in_upload input0) (in_name input0) = Inr good_members"
    "get_archive_members env_403 (in_upload input0) (in_name input0) = Inr good_members"
    by (simp_all add: input0_def get_archive_members_env_404 get_archive_members_env_403)
  have n: "s3_name bucket0 = ''https://s3.example.com/default''"
    "s3_region bucket0 = None" "s3_endpoint_url bucket0 = None"
    by (simp_all add: bucket0_def)
  have "upload_archive st0 env_404 req0 w0
     = (Raised (ImproperlyConfigured (s3_name bucket0) (s3_region bucket0)
                  (s3_endpoint_url bucket0)),
        w0\<lparr>s3_calls := s3_calls w0 @ [HeadBucket (s3_name bucket0)]\<rparr>)"
    using missing_bucket_is_improperly_configured
            [OF b4, where inp = input0 and fl = good_members and w = w0]
      read_upload_req0 [of env_404] v check_good_members head_bucket_env_404
    by blast
  moreover have "upload_archive st0 env_403 req0 w0
     = (Raised (ClientError ''403''),
        w0\<lparr>s3_calls := s3_calls w0 @ [HeadBucket (s3_name bucket0)]\<rparr>)"
    using missing_bucket_is_improperly_configured
            [OF b3, where inp = input0 and fl = good_members and w = w0
               and e = "ClientError ''403''"]
      read_upload_req0 [of env_403] v check_good_members head_bucket_env_403
    by simp
  ultimately show ?thesis
    by (simp only: n)
qed

section \<open>The staging key\<close>

lemma length_le_bytes [simp]: "length (le_bytes k n) = k"
  by (simp add: le_bytes_def)

lemma length_md5_digest: "length (md5_digest msg) = 16"
  by (simp add: md5_digest_def Let_def split: prod.splits)

lemma length_hex_byte [simp]: "length (hex_byte b) = 2"
  by (simp add: hex_byte_def)

lemma length_concat_hex: "length (concat (map hex_byte bs)) = 2 * length bs"
  by (induction bs) simp_all

lemma length_md5_hexdigest: "length (md5_hexdigest s) = 32"
  by (simp add: md5_hexdigest_def length_concat_hex length_md5_digest)

lemma length_hexdigits: "length hexdigits = 16"
  by (simp add: hexdigits_def)

lemma set_hex_byte: "set (hex_byte b) \<subseteq> set hexdigits"
  by (simp add: hex_byte_def length_hexdigits)

lemma set_md5_hexdigest: "set (md5_hexdigest s) \<subseteq> set hexdigits"
  using set_hex_byte by (auto simp: md5_hexdigest_def)

lemma digit_value_upto: "list_all (\<lambda>k. digit_value (''0123456789'' ! k) = k) [0..<10]"
  by code_simp

lemma digit_value_nth: "n < 10 \<Longrightarrow> digit_value (''0123456789'' ! n) = n"
  using digit_value_upto by (simp add: list_all_iff)

lemma digit_nth_in: "n < 10 \<Longrightarrow> ''0123456789'' ! n \<in> set ''0123456789''"
  by (rule nth_mem) simp

lemma nat_of_str_snoc: "nat_of_str (s @ [c]) = 10 * nat_of_str s + digit_value c"
  by (simp add: nat_of_str_def)

lemma nat_of_str_str_nat: "nat_of_str (str_nat n) = n"
proof (induction n rule: str_nat.induct)
  case (1 n)
  show ?case
  proof (cases "n < 10")
    case True
    then show ?thesis
      by (subst str_nat.simps) (simp add: nat_of_str_def digit_value_nth)
  next
    case False
    with 1 have "nat_of_str (str_nat (n div 10)) = n div 10" by simp
    with False show ?thesis
      by (subst str_nat.simps) (simp add: nat_of_str_snoc digit_value_nth)
  qed
qed

lemma str_nat_inj: "str_nat m = str_nat n \<Longrightarrow> m = n"
  by (metis nat_of_str_str_nat)

lemma set_str_nat: "set (str_nat n) \<subseteq> set ''0123456789''"
proof -
  define S where "S = set ''0123456789''"
  have digit: "''0123456789'' ! k \<in> S" if "k < 10" for k
    using digit_nth_in [OF that] by (simp only: S_def)
  have "set (str_nat n) \<subseteq> S"
  proof (induction n rule: str_nat.induct)
    case (1 n)
    show ?case
    proof (cases "n < 10")
      case True
      then have "str_nat n = [''0123456789'' ! n]"
        by (subst str_nat.simps) simp
      with True digit [of n] show ?thesis by simp
    next
      case False
      with 1 have "set (str_nat (n div 10)) \<subseteq> S" by simp
      moreover from False
      have "str_nat n = str_nat (n div 10) @ [''0123456789'' ! (n mod 10)]"
        by (subst str_nat.simps) simp
      ultimately show ?thesis using digit [of "n mod 10"] by simp
    qed
  qed
  then show ?thesis by (simp only: S_def)
qed

lemma digit_value_zero: "digit_value CHR ''0'' = 0"
  by (simp add: digit_value_def)

lemma nat_of_str_zeros: "nat_of_str (replicate k CHR ''0'' @ s) = nat_of_str s"
proof -
  have "foldl (\<lambda>a c. 10 * a + digit_value c) 0 (replicate k CHR ''0'') = 0"
    by (induction k) (simp_all add: digit_value_zero)
  then show ?thesis by (simp add: nat_of_str_def)
qed

lemma nat_of_str_zero_pad: "nat_of_str (zero_pad width (str_nat n)) = n"
  by (simp add: zero_pad_def nat_of_str_zeros nat_of_str_str_nat)

lemma not_in_zero_pad:
  assumes "c \<notin> set ''0123456789''"
  shows "c \<notin> set (zero_pad width (str_nat n))"
proof -
  from assms set_str_nat [of n] have "c \<notin> set (str_nat n)" by blast
  moreover from assms have "c \<noteq> CHR ''0''" by auto
  ultimately show ?thesis by (simp add: zero_pad_def)
qed

lemma dash_not_in_zero_pad: "CHR ''-'' \<notin> set (zero_pad width (str_nat n))"
  by (rule not_in_zero_pad) simp

lemma slash_not_in_strftime: "CHR ''/'' \<notin> set (strftime_Y_m_d d)"
proof -
  have "CHR ''/'' \<notin> set (zero_pad width (str_nat n))" for width n
    by (rule not_in_zero_pad) simp
  then show ?thesis by (simp add: strftime_Y_m_d_def)
qed

lemma split_inbox_key:
  "split_on CHR ''/'' (inbox_key_for d fl nm)
     = ''inbox'' # strftime_Y_m_d d # split_on CHR ''/'' (content_hash fl @ ''/'' @ nm)"
proof -
  have "split_from CHR ''/'' [] (''inbox'' @ CHR ''/'' # r) = ''inbox'' # split_from CHR ''/'' [] r"
    for r
    by simp
  moreover have "split_from CHR ''/'' [] (strftime_Y_m_d d @ CHR ''/'' # r)
                   = strftime_Y_m_d d # split_from CHR ''/'' [] r" for r
    using split_from_append_sep [OF slash_not_in_strftime [of d], of "[]" r] by simp
  ultimately show ?thesis
    by (simp add: inbox_key_for_def split_on_def)
qed

lemma split_strftime:
  "split_on CHR ''-'' (strftime_Y_m_d d)
     = [zero_pad 4 (str_nat (year d)), zero_pad 2 (str_nat (month d)),
        zero_pad 2 (str_nat (day d))]"
  by (simp add: split_on_def strftime_Y_m_d_def split_from_append_sep split_from_no_sep_id
      dash_not_in_zero_pad)

lemma strftime_same_day: "strftime_Y_m_d d1 = strftime_Y_m_d d2 \<longleftrightarrow> same_day d1 d2"
proof
  assume "strftime_Y_m_d d1 = strftime_Y_m_d d2"
  then have "split_on CHR ''-'' (strftime_Y_m_d d1) = split_on CHR ''-'' (strftime_Y_m_d d2)"
    by simp
  then have "zero_pad 4 (str_nat (year d1)) = zero_pad 4 (str_nat (year d2))"
    and "zero_pad 2 (str_nat (month d1)) = zero_pad 2 (str_nat (month d2))"
    and "zero_pad 2 (str_nat (day d1)) = zero_pad 2 (str_nat (day d2))"
    by (simp_all add: split_strftime)
  then show "same_day d1 d2"
    unfolding same_day_def by (metis nat_of_str_zero_pad)
next
  assume "same_day d1 d2"
  then show "strftime_Y_m_d d1 = strftime_Y_m_d d2"
    by (simp add: same_day_def strftime_Y_m_d_def)
qed

lemma length_content_hash: "length (content_hash fl) = 12"
  by (simp add: content_hash_def length_md5_hexdigest)

lemma set_content_hash: "set (content_hash fl) \<subseteq> set hexdigits"
  unfolding content_hash_def
  by (rule order_trans [OF set_take_subset set_md5_hexdigest])

text \<open>
  Claim C1, amended. The staging key is \<open>inbox/<date>/<fingerprint>/<name>\<close>, where the
  fingerprint is the first 12 characters of the hexadecimal MD5 digest of the listing's
  \<open>name:size\<close> lines joined by newlines: always 12 lower-case hexadecimal characters. Two
  requests with the same listing and the same file name get the same key when they come
  on the same calendar day, whatever the time of day; on different days their keys are
  different and differ in the date segment only.
\<close>

theorem inbox_key_for_listing_day_and_name:
  "inbox_key_for today fl nm
     = ''inbox/'' @ strftime_Y_m_d today @ ''/'' @ content_hash fl @ ''/'' @ nm
   \<and> content_hash fl
       = take 12 (md5_hexdigest
           (join [CHR 0x0A] (map (\<lambda>x. fl_name x @ '':'' @ str_nat (fl_size x)) fl)))
   \<and> length (content_hash fl) = 12
   \<and> set (content_hash fl) \<subseteq> set ''0123456789abcdef''
   \<and> (same_day d1 d2 \<longrightarrow> inbox_key_for d1 fl nm = inbox_key_for d2 fl nm)
   \<and> (\<not> same_day d1 d2 \<longrightarrow>
        inbox_key_for d1 fl nm \<noteq> inbox_key_for d2 fl nm
        \<and> strftime_Y_m_d d1 \<noteq> strftime_Y_m_d d2
        \<and> (\<exists>rest. inbox_key_for d1 fl nm = ''inbox/'' @ strftime_Y_m_d d1 @ rest
                  \<and> inbox_key_for d2 fl nm = ''inbox/'' @ strftime_Y_m_d d2 @ rest))"
proof (intro conjI impI)
  show "inbox_key_for today fl nm
     = ''inbox/'' @ strftime_Y_m_d today @ ''/'' @ content_hash fl @ ''/'' @ nm"
    by (simp add: inbox_key_for_def)
  show "content_hash fl
       = take 12 (md5_hexdigest
           (join [CHR 0x0A] (map (\<lambda>x. fl_name x @ '':'' @ str_nat (fl_size x)) fl)))"
    by (simp add: content_hash_def listing_content_def)
  show "length (content_hash fl) = 12"
    by (rule length_content_hash)
  show "set (content_hash fl) \<subseteq> set ''0123456789abcdef''"
    using set_content_hash [of fl] by (simp only: hexdigits_def)
next
  assume "same_day d1 d2"
  then show "inbox_key_for d1 fl nm = inbox_key_for d2 fl nm"
    by (simp add: inbox_key_for_def strftime_same_day)
next
  assume d: "\<not> same_day d1 d2"
  then show ne: "strftime_Y_m_d d1 \<noteq> strftime_Y_m_d d2"
    by (simp add: strftime_same_day)
  show "inbox_key_for d1 fl nm \<noteq> inbox_key_for d2 fl nm"
  proof
    assume "inbox_key_for d1 fl nm = inbox_key_for d2 fl nm"
    then have "split_on CHR ''/'' (inbox_key_for d1 fl nm)
                 = split_on CHR ''/'' (inbox_key_for d2 fl nm)"
      by simp
    then have "strftime_Y_m_d d1 = strftime_Y_m_d d2"
      by (simp add: split_inbox_key)
    with ne show False ..
  qed
  show "\<exists>rest. inbox_key_for d1 fl nm = ''inbox/'' @ strftime_Y_m_d d1 @ rest
                  \<and> inbox_key_for d2 fl nm = ''inbox/'' @ strftime_Y_m_d d2 @ rest"
    by (simp add: inbox_key_for_def)
qed

lemma same_day_later: "same_day (now env0) later_same_day"
  by (simp add: same_day_def env0_def later_same_day_def)

lemma not_same_day_next: "\<not> same_day (now env0) next_day"
  by (simp add: same_day_def env0_def next_day_def)

theorem inbox_key_for_listing_day_and_name_witness:
  "same_day (now env0) later_same_day
   \<and> inbox_key_for (now env0) good_members ''symbols.zip''
       = inbox_key_for later_same_day good_members ''symbols.zip''
   \<and> \<not> same_day (now env0) next_day
   \<and> inbox_key_for (now env0) good_members ''symbols.zip''
       \<noteq> inbox_key_for next_day good_members ''symbols.zip''"
  using inbox_key_for_listing_day_and_name
          [of "now env0" good_members "''symbols.zip''" "now env0" later_same_day]
    inbox_key_for_listing_day_and_name
          [of "now env0" good_members "''symbols.zip''" "now env0" next_day]
    same_day_later not_same_day_next
  by blast

text \<open>
  Claim C1 as stated leaves the file name out: two requests with the same listing on the
  same day get different keys when their file names differ.
\<close>

theorem inbox_key_for_other_name_counterexample:
  "same_day (now env0) later_same_day
   \<and> inbox_key_for (now env0) good_members ''symbols.zip''
       \<noteq> inbox_key_for later_same_day good_members ''other.zip''"
proof -
  have "strftime_Y_m_d (now env0) = strftime_Y_m_d later_same_day"
    using same_day_later by (simp only: strftime_same_day)
  then have "inbox_key_for (now env0) good_members ''symbols.zip''
       \<noteq> inbox_key_for later_same_day good_members ''other.zip''"
    by (simp add: inbox_key_for_def)
  with same_day_later show ?thesis by (rule conjI)
qed

section \<open>The bucket of a user\<close>

lemma lower_peter: "lower ''peter@example.com'' = ''peter@example.com''"
  "lower ''Peter@Example.com'' = ''peter@example.com''"
  "lower ''*@example.com'' = ''*@example.com''"
  by (simp_all add: lower_def lower_char_def uppercase_letters_def lowercase_letters_def)

lemma glob_peter: "glob_match ''*@example.com'' ''peter@example.com''"
  by simp

text \<open>
  Claim C6. The exact lookup compares the lower-cased email with the keys as they are
  written, while the wildcard loop lower-cases the keys. With the key
  \<open>Peter@Example.com\<close> after the pattern \<open>*@example.com\<close>, the user \<open>peter@example.com\<close>
  gets the pattern's URL, where the rule of the design document (exact match up to case
  before any wildcard) gives the URL of the exact key; with the key in lower case the
  code gives that URL too.
\<close>

theorem exact_lookup_misses_mixed_case_key:
  "get_bucket_url st_mixed_case env_glob \<lparr>email = ''peter@example.com''\<rparr>
     = ''https://s3.example.com/everyone''
   \<and> spec_bucket_url st_mixed_case env_glob \<lparr>email = ''peter@example.com''\<rparr>
     = ''https://s3.example.com/peter''
   \<and> get_bucket_url st_lower_case env_glob \<lparr>email = ''peter@example.com''\<rparr>
     = ''https://s3.example.com/peter''"
  by (simp add: get_bucket_url_def spec_bucket_url_def st_mixed_case_def st_lower_case_def
      st0_def env_glob_def lower_peter glob_peter del: glob_match.simps)

lemma find_Some_in: "find P xs = Some x \<Longrightarrow> x \<in> set xs \<and> P x"
  by (induction xs) (auto split: if_splits)

lemma map_of_find:
  "map_of xs k = map_option snd (find (\<lambda>entry. fst entry = k) xs)"
  by (induction xs) auto

lemma find_fst_map_of:
  "find (\<lambda>entry. P (fst entry)) xs = Some entry \<Longrightarrow> map_of xs (fst entry) = Some (snd entry)"
proof (induction xs)
  case Nil
  then show ?case by simp
next
  case (Cons x xs)
  show ?case
  proof (cases "P (fst x)")
    case True
    with Cons.prems have "entry = x" by simp
    then show ?thesis by (cases x) simp
  next
    case False
    with Cons.prems have f: "find (\<lambda>entry. P (fst entry)) xs = Some entry" by simp
    then have "P (fst entry)" by (auto dest: find_Some_in)
    with False have "fst entry \<noteq> fst x" by auto
    with Cons.IH [OF f] show ?thesis by (cases x) simp
  qed
qed

lemma match_wildcards_find:
  "match_wildcards env exceptions lowered (map fst rest)
     = (case find (\<lambda>entry. fnmatch env lowered (lower (fst entry))) rest of
          None \<Rightarrow> None
        | Some entry \<Rightarrow> map_of exceptions (fst entry))"
  by (induction rest) simp_all

lemma match_wildcards_first_match:
  "match_wildcards env exceptions lowered (map fst exceptions)
     = map_option snd (find (\<lambda>entry. fnmatch env lowered (lower (fst entry))) exceptions)"
proof (cases "find (\<lambda>entry. fnmatch env lowered (lower (fst entry))) exceptions")
  case None
  then show ?thesis by (simp add: match_wildcards_find)
next
  case (Some entry)
  with find_fst_map_of [of "\<lambda>k. fnmatch env lowered (lower k)" exceptions entry]
  show ?thesis by (simp add: match_wildcards_find)
qed

text \<open>
  When every key of the table is in lower case and every URL is non-empty, the code follows
  the rule of the design document.
\<close>

lemma get_bucket_url_lower_case_keys:
  assumes "\<forall>entry\<in>set (UPLOAD_URL_EXCEPTIONS st). lower (fst entry) = fst entry \<and> snd entry \<noteq> []"
  shows "get_bucket_url st env usr = spec_bucket_url st env usr"
proof -
  let ?exc = "UPLOAD_URL_EXCEPTIONS st"
  let ?e = "lower (email usr)"
  have same: "find (\<lambda>entry. lower (fst entry) = ?e) ?exc = find (\<lambda>entry. fst entry = ?e) ?exc"
    using assms by (intro find_cong) auto
  have nonempty: "snd entry \<noteq> []" if "find P ?exc = Some entry" for P entry
    using that assms by (auto dest: find_Some_in)
  show ?thesis
  proof (cases "find (\<lambda>entry. fst entry = ?e) ?exc")
    case None
    then have "?e \<notin> set (map fst ?exc)"
      by (auto simp: find_None_iff)
    with None show ?thesis
      by (auto simp: get_bucket_url_def spec_bucket_url_def same Let_def
          match_wildcards_first_match dest: nonempty split: option.splits)
  next
    case (Some entry)
    then have "?e \<in> set (map fst ?exc)"
      by (force dest: find_Some_in)
    with Some nonempty [OF Some] show ?thesis
      by (simp add: get_bucket_url_def spec_bucket_url_def same map_of_find)
  qed
qed

section \<open>The scan for stuck uploads\<close>

text \<open>The view touches the cache through the scan only: a request that is accepted ends
  with one scan at the time of the request, and every other request leaves the cache as it
  is.\<close>

lemma store_upload_cache: "cache (snd (store_upload st env req inp bucket_info key w)) = cache w"
  by (simp add: store_upload_def Upload_objects_create_def Let_def split_beta
      split: option.splits list.splits)

lemma store_and_dispatch_scan:
  "cache (snd (store_and_dispatch st env req inp fl w)) = cache w
   \<or> (\<exists>w3. cache w3 = cache w
          \<and> snd (store_and_dispatch st env req inp fl w)
              = reattempt_incomplete_uploads st (now env) w3)"
proof (cases "store_upload st env req inp (get_bucket_info st env (request_user req))
                (inbox_key_for (now env) fl (in_name inp))
                (w\<lparr>s3_calls := s3_calls w
                     @ [HeadBucket (s3_name (get_bucket_info st env (request_user req)))]\<rparr>)")
  case (Pair result w2)
  with store_upload_cache [of st env req inp "get_bucket_info st env (request_user req)"
         "inbox_key_for (now env) fl (in_name inp)"
         "w\<lparr>s3_calls := s3_calls w
              @ [HeadBucket (s3_name (get_bucket_info st env (request_user req)))]\<rparr>"]
  have c: "cache w2 = cache w" by simp
  show ?thesis
  proof (cases "head_bucket env (s3_name (get_bucket_info st env (request_user req)))")
    case None
    show ?thesis
    proof (cases result)
      case (Inl e)
      with None Pair c show ?thesis
        by (simp add: store_and_dispatch_def Let_def)
    next
      case (Inr upload_obj)
      with None Pair have "snd (store_and_dispatch st env req inp fl w)
          = reattempt_incomplete_uploads st (now env)
              (w2\<lparr>delayed := delayed w2 @ [upload_id upload_obj]\<rparr>)"
        by (simp add: store_and_dispatch_def Let_def)
      moreover from c have "cache (w2\<lparr>delayed := delayed w2 @ [upload_id upload_obj]\<rparr>) = cache w"
        by simp
      ultimately show ?thesis by blast
    qed
  next
    case (Some e)
    then have "cache (snd (store_and_dispatch st env req inp fl w)) = cache w"
      by (simp add: store_and_dispatch_head_failed)
    then show ?thesis ..
  qed
qed

lemma upload_archive_scan:
  "cache (snd (upload_archive st env req w)) = cache w
   \<or> (\<exists>w3. cache w3 = cache w
          \<and> snd (upload_archive st env req w) = reattempt_incomplete_uploads st (now env) w3)"
  using upload_archive_paths [of st env req w]
proof
  assume "upload_archive st env req w = (fst (upload_archive st env req w), w)"
  then have "snd (upload_archive st env req w) = w"
    by (metis snd_conv)
  then show ?thesis by simp
next
  assume "\<exists>inp fl. upload_archive st env req w = store_and_dispatch st env req inp fl w"
  then obtain inp fl
    where "upload_archive st env req w = store_and_dispatch st env req inp fl w"
    by blast
  with store_and_dispatch_scan [of st env req inp fl w] show ?thesis by simp
qed

lemma map_of_cache_set:
  "map_of (cache_set c t k v timeout) k'
     = (if k' = k then Some (v, t + timeout) else map_of c k')"
proof -
  have "map_of (filter (\<lambda>entry. fst entry \<noteq> k) c) k' = map_of c k'" if "k' \<noteq> k"
    using that by (induction c) auto
  then show ?thesis by (simp add: cache_set_def)
qed

lemma throttle_key_inj: "throttle_key i = throttle_key j \<longleftrightarrow> i = j"
  by (auto simp: throttle_key_def dest: str_nat_inj)

lemma incomplete_uploads_stuck: "incomplete_uploads st t table = filter (stuck st t) table"
  unfolding incomplete_uploads_def by (rule filter_cong) (simp_all add: stuck_def)

lemma reattempt_loop_delayed:
  "\<exists>new. delayed (reattempt_loop st t us w) = delayed w @ new"
proof (induction us arbitrary: w)
  case Nil
  show ?case by simp
next
  case (Cons u us)
  show ?case
  proof (cases "cache_get (cache w) (timestamp t) (''reattempt:'' @ str_nat (upload_id u)) \<noteq> Some True")
    case True
    let ?w1 = "w\<lparr>delayed := delayed w @ [upload_id u],
                 cache := cache_set (cache w) (timestamp t) (''reattempt:'' @ str_nat (upload_id u))
                            True (UPLOAD_REATTEMPT_LIMIT_SECONDS st)\<rparr>"
    from Cons [of ?w1] obtain new
      where "delayed (reattempt_loop st t us ?w1) = delayed ?w1 @ new" by blast
    with True show ?thesis by (simp add: Let_def)
  next
    case False
    with Cons [of w] show ?thesis by (simp add: Let_def)
  qed
qed

lemma delayed_reattempt_loop:
  "delayed (reattempt_loop st t us w) = delayed w @ loop_redispatched st t us w"
  using reattempt_loop_delayed [of st t us w] by (auto simp: loop_redispatched_def)

lemma loop_redispatched_Nil [simp]: "loop_redispatched st t [] w = []"
  by (simp add: loop_redispatched_def)

lemma loop_redispatched_Cons:
  "loop_redispatched st t (u # us) w =
     (if throttled w t (upload_id u) then loop_redispatched st t us w
      else upload_id u #
           loop_redispatched st t us
             (w\<lparr>delayed := delayed w @ [upload_id u],
                cache := cache_set (cache w) (timestamp t) (throttle_key (upload_id u)) True
                           (UPLOAD_REATTEMPT_LIMIT_SECONDS st)\<rparr>))"
proof (cases "throttled w t (upload_id u)")
  case True
  then show ?thesis
    by (simp add: loop_redispatched_def throttled_def throttle_key_def Let_def)
next
  case False
  let ?w1 = "w\<lparr>delayed := delayed w @ [upload_id u],
                cache := cache_set (cache w) (timestamp t) (throttle_key (upload_id u)) True
                           (UPLOAD_REATTEMPT_LIMIT_SECONDS st)\<rparr>"
  from False have "reattempt_loop st t (u # us) w = reattempt_loop st t us ?w1"
    by (simp add: throttled_def throttle_key_def Let_def)
  then have "delayed (reattempt_loop st t (u # us) w)
               = (delayed w @ [upload_id u]) @ loop_redispatched st t us ?w1"
    by (simp add: delayed_reattempt_loop)
  with False show ?thesis
    by (simp add: loop_redispatched_def [of st t "u # us" w])
qed

lemma cache_reattempt_loop_Cons:
  "cache (reattempt_loop st t (u # us) w) =
     (if throttled w t (upload_id u) then cache (reattempt_loop st t us w)
      else cache (reattempt_loop st t us
             (w\<lparr>delayed := delayed w @ [upload_id u],
                cache := cache_set (cache w) (timestamp t) (throttle_key (upload_id u)) True
                           (UPLOAD_REATTEMPT_LIMIT_SECONDS st)\<rparr>)))"
  by (simp add: throttled_def throttle_key_def Let_def)

lemma throttled_after_redispatch:
  "throttled (w\<lparr>delayed := d,
               cache := cache_set (cache w) (timestamp t) (throttle_key i) True timeout\<rparr>) t j
     \<longleftrightarrow> (if j = i then 0 < timeout else throttled w t j)"
  by (simp add: throttled_def cache_get_def map_of_cache_set throttle_key_inj)

lemma set_loop_redispatched:
  "i \<in> set (loop_redispatched st t us w) \<longleftrightarrow> i \<in> upload_id ` set us \<and> \<not> throttled w t i"
proof (induction us arbitrary: w)
  case Nil
  show ?case by simp
next
  case (Cons u us)
  show ?case
  proof (cases "throttled w t (upload_id u)")
    case True
    with Cons [of w] show ?thesis
      by (auto simp: loop_redispatched_Cons)
  next
    case False
    with Cons show ?thesis
      by (auto simp: loop_redispatched_Cons throttled_after_redispatch)
  qed
qed

lemma distinct_loop_redispatched:
  "distinct (map upload_id us) \<Longrightarrow> distinct (loop_redispatched st t us w)"
proof (induction us arbitrary: w)
  case Nil
  show ?case by simp
next
  case (Cons u us)
  then have "upload_id u \<notin> upload_id ` set us" and "distinct (map upload_id us)"
    by simp_all
  with Cons.IH show ?case
    by (simp add: loop_redispatched_Cons set_loop_redispatched)
qed

lemma cache_after_loop:
  "map_of (cache (reattempt_loop st t us w)) (throttle_key i)
     = (if i \<in> set (loop_redispatched st t us w)
        then Some (True, timestamp t + UPLOAD_REATTEMPT_LIMIT_SECONDS st)
        else map_of (cache w) (throttle_key i))"
proof (induction us arbitrary: w)
  case Nil
  show ?case by simp
next
  case (Cons u us)
  show ?case
  proof (cases "throttled w t (upload_id u)")
    case True
    with Cons [of w] show ?thesis
      by (simp only: cache_reattempt_loop_Cons loop_redispatched_Cons if_True)
  next
    case False
    let ?w1 = "w\<lparr>delayed := delayed w @ [upload_id u],
                  cache := cache_set (cache w) (timestamp t) (throttle_key (upload_id u)) True
                             (UPLOAD_REATTEMPT_LIMIT_SECONDS st)\<rparr>"
    have c: "cache (reattempt_loop st t (u # us) w) = cache (reattempt_loop st t us ?w1)"
      using False by (simp only: cache_reattempt_loop_Cons if_False)
    have n: "loop_redispatched st t (u # us) w = upload_id u # loop_redispatched st t us ?w1"
      using False by (simp only: loop_redispatched_Cons if_False)
    have "map_of (cache ?w1) (throttle_key i)
            = (if i = upload_id u
               then Some (True, timestamp t + UPLOAD_REATTEMPT_LIMIT_SECONDS st)
               else map_of (cache w) (throttle_key i))"
      by (simp add: map_of_cache_set throttle_key_inj)
    with Cons [of ?w1] show ?thesis
      unfolding c n by auto
  qed
qed

lemma redispatched_loop:
  "redispatched st t w
     = loop_redispatched st t
         (sort_key (\<lambda>u. timestamp (created_at u)) (incomplete_uploads st t (uploads w))) w"
  by (simp add: redispatched_def loop_redispatched_def reattempt_incomplete_uploads_def)

lemma set_redispatched:
  "i \<in> set (redispatched st t w)
     \<longleftrightarrow> (\<exists>u\<in>set (uploads w). stuck st t u \<and> upload_id u = i) \<and> \<not> throttled w t i"
  by (auto simp: redispatched_loop set_loop_redispatched incomplete_uploads_stuck)

lemma distinct_redispatched:
  assumes "distinct (map upload_id (uploads w))"
  shows "distinct (redispatched st t w)"
proof -
  let ?us = "sort_key (\<lambda>u. timestamp (created_at u)) (incomplete_uploads st t (uploads w))"
  from assms have "distinct (uploads w)" and "inj_on upload_id (set (uploads w))"
    by (simp_all add: distinct_map)
  then have "distinct ?us" and "inj_on upload_id (set ?us)"
    by (auto simp: incomplete_uploads_stuck inj_on_def)
  then have "distinct (map upload_id ?us)"
    by (simp add: distinct_map)
  then show ?thesis
    unfolding redispatched_loop by (rule distinct_loop_redispatched)
qed

lemma cache_after_scan:
  "map_of (cache (reattempt_incomplete_uploads st t w)) (throttle_key i)
     = (if i \<in> set (redispatched st t w)
        then Some (True, timestamp t + UPLOAD_REATTEMPT_LIMIT_SECONDS st)
        else map_of (cache w) (throttle_key i))"
  unfolding redispatched_loop reattempt_incomplete_uploads_def by (rule cache_after_loop)

lemma spaced_append:
  "spaced window (xs @ ys) \<longleftrightarrow>
     spaced window xs \<and> spaced window ys
     \<and> (\<forall>x\<in>set xs. \<forall>y\<in>set ys. snd y = snd x \<longrightarrow> fst x + window \<le> fst y)"
  by (induction xs) auto

lemma spaced_one_scan: "distinct ids \<Longrightarrow> spaced window (map (\<lambda>i. (t, i)) ids)"
  by (induction ids) auto

lemma spaced_nth:
  "spaced window evs \<Longrightarrow> p < q \<Longrightarrow> q < length evs \<Longrightarrow> snd (evs ! p) = snd (evs ! q)
   \<Longrightarrow> fst (evs ! p) + window \<le> fst (evs ! q)"
proof (induction evs arbitrary: p q)
  case Nil
  then show ?case by simp
next
  case (Cons ev evs)
  from Cons.prems(2) obtain q' where q: "q = Suc q'" by (cases q) simp_all
  show ?case
  proof (cases p)
    case 0
    with Cons.prems q have "evs ! q' \<in> set evs" and "snd (evs ! q') = snd ev"
      by simp_all
    with Cons.prems(1) 0 q show ?thesis by simp
  next
    case (Suc p')
    with Cons.prems q Cons.IH [of p' q'] show ?thesis by simp
  qed
qed

lemma scans_times:
  "(time, i) \<in> set (scans st schedule w) \<Longrightarrow> time \<in> (\<lambda>s. timestamp (fst s)) ` set schedule"
  by (induction st schedule w rule: scans.induct) auto

lemma not_throttled_expired:
  assumes "map_of (cache w) (throttle_key j) = Some (True, expires)"
    and "\<not> throttled w t j"
  shows "expires \<le> timestamp t"
  using assms by (simp add: throttled_def cache_get_def split: if_splits)

lemma redispatch_after_expiry:
  assumes "sorted (map (\<lambda>s. timestamp (fst s)) schedule)"
    and "map_of (cache w) (throttle_key j) = Some (True, expires)"
    and "(time, j) \<in> set (scans st schedule w)"
  shows "expires \<le> time"
  using assms
proof (induction st schedule w arbitrary: expires rule: scans.induct)
  case (1 st w)
  then show ?case by simp
next
  case (2 st t table rest w)
  let ?w0 = "w\<lparr>uploads := table\<rparr>"
  let ?w' = "reattempt_incomplete_uploads st t ?w0"
  from "2.prems"(1) have sorted_rest: "sorted (map (\<lambda>s. timestamp (fst s)) rest)"
    and later: "\<forall>s\<in>set rest. timestamp t \<le> timestamp (fst s)"
    by auto
  from "2.prems"(2) have entry: "map_of (cache ?w0) (throttle_key j) = Some (True, expires)"
    by simp
  show ?case
  proof (cases "j \<in> set (redispatched st t ?w0)")
    case True
    then have "\<not> throttled ?w0 t j"
      by (simp add: set_redispatched)
    with entry have now: "expires \<le> timestamp t"
      by (rule not_throttled_expired)
    from "2.prems"(3) have "time = timestamp t \<or> (time, j) \<in> set (scans st rest ?w')"
      by auto
    then show ?thesis
    proof
      assume "time = timestamp t"
      with now show ?thesis by simp
    next
      assume "(time, j) \<in> set (scans st rest ?w')"
      then have "time \<in> (\<lambda>s. timestamp (fst s)) ` set rest"
        by (rule scans_times)
      with later have "timestamp t \<le> time" by auto
      with now show ?thesis by simp
    qed
  next
    case False
    with "2.prems"(3) have ev: "(time, j) \<in> set (scans st rest ?w')"
      by auto
    from False entry have "map_of (cache ?w') (throttle_key j) = Some (True, expires)"
      by (simp add: cache_after_scan)
    from "2.IH" [OF sorted_rest this ev] show ?thesis .
  qed
qed

lemma spaced_scans:
  assumes "sorted (map (\<lambda>s. timestamp (fst s)) schedule)"
    and "\<forall>s\<in>set schedule. distinct (map upload_id (snd s))"
  shows "spaced (UPLOAD_REATTEMPT_LIMIT_SECONDS st) (scans st schedule w)"
  using assms
proof (induction st schedule w rule: scans.induct)
  case (1 st w)
  show ?case by simp
next
  case (2 st t table rest w)
  let ?w0 = "w\<lparr>uploads := table\<rparr>"
  let ?w' = "reattempt_incomplete_uploads st t ?w0"
  from "2.prems" have sorted_rest: "sorted (map (\<lambda>s. timestamp (fst s)) rest)"
    and distinct_rest: "\<forall>s\<in>set rest. distinct (map upload_id (snd s))"
    and "distinct (map upload_id (uploads ?w0))"
    by auto
  then have first: "spaced (UPLOAD_REATTEMPT_LIMIT_SECONDS st)
                      (map (\<lambda>i. (timestamp t, i)) (redispatched st t ?w0))"
    by (intro spaced_one_scan distinct_redispatched)
  from sorted_rest distinct_rest
  have later: "spaced (UPLOAD_REATTEMPT_LIMIT_SECONDS st) (scans st rest ?w')"
    by (rule "2.IH")
  have cross: "timestamp t + UPLOAD_REATTEMPT_LIMIT_SECONDS st \<le> time"
    if "i \<in> set (redispatched st t ?w0)" and "(time, i) \<in> set (scans st rest ?w')" for i time
  proof -
    from that(1) have "map_of (cache ?w') (throttle_key i)
            = Some (True, timestamp t + UPLOAD_REATTEMPT_LIMIT_SECONDS st)"
      by (simp add: cache_after_scan)
    from redispatch_after_expiry [OF sorted_rest this that(2)] show ?thesis .
  qed
  from first later cross show ?case
    by (auto simp: spaced_append)
qed

text \<open>
  Claim C3. Scans run one after the other at times that do not decrease, each on the
  \<open>Upload\<close> table of its moment (ids are unique in a table), with the cache carried from
  scan to scan. Then two re-dispatches of one upload are at least the threshold apart,
  however many scans run: at most one per threshold window. In one scan, an upload id is
  re-dispatched exactly when some stuck upload (incomplete, not cancelled, older than the
  threshold, below the attempt ceiling) has it and no live throttle entry
  \<open>reattempt:<upload-id>\<close> is in the cache; the scan then leaves an entry that expires one
  threshold later. A scan before that expiry does not re-dispatch the upload, and a scan at
  or after it does, when the upload is still stuck.
\<close>

theorem reattempt_once_per_window:
  assumes "sorted (map (\<lambda>s. timestamp (fst s)) schedule)"
    and "\<forall>s\<in>set schedule. distinct (map upload_id (snd s))"
    and "w' = reattempt_incomplete_uploads st t w"
  shows
    "(\<forall>p q. p < q \<and> q < length (scans st schedule ws)
             \<and> snd (scans st schedule ws ! p) = snd (scans st schedule ws ! q) \<longrightarrow>
           fst (scans st schedule ws ! p) + UPLOAD_REATTEMPT_LIMIT_SECONDS st
             \<le> fst (scans st schedule ws ! q))
     \<and> (\<forall>i. i \<in> set (redispatched st t w) \<longleftrightarrow>
           (\<exists>u\<in>set (uploads w). stuck st t u \<and> upload_id u = i) \<and> \<not> throttled w t i)
     \<and> (\<forall>i\<in>set (redispatched st t w).
           map_of (cache w') (throttle_key i)
             = Some (True, timestamp t + UPLOAD_REATTEMPT_LIMIT_SECONDS st))
     \<and> (\<forall>i\<in>set (redispatched st t w).
           timestamp t' < timestamp t + UPLOAD_REATTEMPT_LIMIT_SECONDS st \<longrightarrow>
           i \<notin> set (redispatched st t' (w'\<lparr>uploads := table'\<rparr>)))
     \<and> (\<forall>i\<in>set (redispatched st t w).
           timestamp t + UPLOAD_REATTEMPT_LIMIT_SECONDS st \<le> timestamp t'
           \<and> (\<exists>u\<in>set table'. stuck st t' u \<and> upload_id u = i) \<longrightarrow>
           i \<in> set (redispatched st t' (w'\<lparr>uploads := table'\<rparr>)))"
proof (intro conjI allI ballI impI)
  fix p q
  assume "p < q \<and> q < length (scans st schedule ws)
             \<and> snd (scans st schedule ws ! p) = snd (scans st schedule ws ! q)"
  with spaced_scans [OF assms(1,2), of st ws]
  show "fst (scans st schedule ws ! p) + UPLOAD_REATTEMPT_LIMIT_SECONDS st
             \<le> fst (scans st schedule ws ! q)"
    using spaced_nth by blast
next
  fix i
  show "i \<in> set (redispatched st t w) \<longleftrightarrow>
           (\<exists>u\<in>set (uploads w). stuck st t u \<and> upload_id u = i) \<and> \<not> throttled w t i"
    by (rule set_redispatched)
next
  fix i
  assume "i \<in> set (redispatched st t w)"
  then show "map_of (cache w') (throttle_key i)
             = Some (True, timestamp t + UPLOAD_REATTEMPT_LIMIT_SECONDS st)"
    unfolding assms(3) by (simp add: cache_after_scan)
next
  fix i
  assume "i \<in> set (redispatched st t w)"
    and "timestamp t' < timestamp t + UPLOAD_REATTEMPT_LIMIT_SECONDS st"
  then have "throttled (w'\<lparr>uploads := table'\<rparr>) t' i"
    unfolding assms(3) by (simp add: throttled_def cache_get_def cache_after_scan)
  then show "i \<notin> set (redispatched st t' (w'\<lparr>uploads := table'\<rparr>))"
    by (simp add: set_redispatched)
next
  fix i
  assume "i \<in> set (redispatched st t w)"
    and h: "timestamp t + UPLOAD_REATTEMPT_LIMIT_SECONDS st \<le> timestamp t'
           \<and> (\<exists>u\<in>set table'. stuck st t' u \<and> upload_id u = i)"
  then have "\<not> throttled (w'\<lparr>uploads := table'\<rparr>) t' i"
    unfolding assms(3) by (simp add: throttled_def cache_get_def cache_after_scan)
  with h show "i \<in> set (redispatched st t' (w'\<lparr>uploads := table'\<rparr>))"
    by (simp add: set_redispatched)
qed

lemma redispatched_single:
  assumes "stuck st t u"
  shows "redispatched st t (w\<lparr>uploads := [u]\<rparr>)
           = (if throttled w t (upload_id u) then [] else [upload_id u])"
proof -
  have "throttled (w\<lparr>uploads := [u]\<rparr>) t i = throttled w t i" for i
    by (simp add: throttled_def)
  with assms show ?thesis
    by (simp add: redispatched_loop incomplete_uploads_stuck loop_redispatched_Cons)
qed

lemma stuck0_times:
  "stuck st0 (now env0) stuck0" "stuck st0 half_hour_later stuck0"
  "stuck st0 later_same_day stuck0"
  by (simp_all add: stuck_def st0_def stuck0_def env0_def half_hour_later_def
      later_same_day_def)

lemma schedule0_times:
  "timestamp (now env0) = 1520589600" "timestamp half_hour_later = 1520591400"
  "timestamp later_same_day = 1520593200" "UPLOAD_REATTEMPT_LIMIT_SECONDS st0 = 3600"
  "upload_id stuck0 = 7"
  by (simp_all add: env0_def half_hour_later_def later_same_day_def st0_def stuck0_def)

lemma first_scan0:
  "redispatched st0 (now env0) (w0\<lparr>uploads := [stuck0]\<rparr>) = [7]"
proof -
  have "\<not> throttled w0 (now env0) 7"
    by (simp add: throttled_def cache_get_def w0_def)
  then show ?thesis
    by (simp add: redispatched_single [OF stuck0_times(1)] schedule0_times)
qed

lemma schedule0_sorted: "sorted (map (\<lambda>s. timestamp (fst s)) schedule0)"
  by (simp add: schedule0_def schedule0_times)

lemma schedule0_distinct: "\<forall>s\<in>set schedule0. distinct (map upload_id (snd s))"
  by (simp add: schedule0_def)

theorem reattempt_once_per_window_witness:
  "sorted (map (\<lambda>s. timestamp (fst s)) schedule0)
   \<and> list_all (\<lambda>s. distinct (map upload_id (snd s))) schedule0
   \<and> scans st0 schedule0 w0 = [(1520589600, 7), (1520593200, 7)]
   \<and> fst (scans st0 schedule0 w0 ! 0) + UPLOAD_REATTEMPT_LIMIT_SECONDS st0
       \<le> fst (scans st0 schedule0 w0 ! 1)
   \<and> redispatched st0 (now env0) (w0\<lparr>uploads := [stuck0]\<rparr>) = [7]
   \<and> redispatched st0 half_hour_later
        ((reattempt_incomplete_uploads st0 (now env0) (w0\<lparr>uploads := [stuck0]\<rparr>))
           \<lparr>uploads := [stuck0]\<rparr>) = []
   \<and> redispatched st0 later_same_day
        ((reattempt_incomplete_uploads st0 (now env0) (w0\<lparr>uploads := [stuck0]\<rparr>))
           \<lparr>uploads := [stuck0]\<rparr>) = [7]"
proof -
  let ?w = "w0\<lparr>uploads := [stuck0]\<rparr>"
  let ?w1 = "reattempt_incomplete_uploads st0 (now env0) ?w"
  let ?w2 = "reattempt_incomplete_uploads st0 half_hour_later (?w1\<lparr>uploads := [stuck0]\<rparr>)"
  note thm1 = reattempt_once_per_window
                [OF schedule0_sorted schedule0_distinct refl,
                 where st = st0 and t = "now env0" and w = ?w and ws = w0
                   and t' = half_hour_later and table' = "[stuck0]"]
  note thm2 = reattempt_once_per_window
                [OF schedule0_sorted schedule0_distinct refl,
                 where st = st0 and t = "now env0" and w = ?w and ws = w0
                   and t' = later_same_day and table' = "[stuck0]"]
  have in1: "7 \<in> set (redispatched st0 (now env0) ?w)"
    by (simp add: first_scan0)
  from thm1 in1 have "7 \<notin> set (redispatched st0 half_hour_later (?w1\<lparr>uploads := [stuck0]\<rparr>))"
    by (simp add: schedule0_times)
  then have r2: "redispatched st0 half_hour_later (?w1\<lparr>uploads := [stuck0]\<rparr>) = []"
    by (simp add: redispatched_single [OF stuck0_times(2)] schedule0_times split: if_splits)
  have "\<exists>u\<in>set [stuck0]. stuck st0 later_same_day u \<and> upload_id u = 7"
    by (simp add: stuck0_times schedule0_times)
  with thm2 in1
  have "7 \<in> set (redispatched st0 later_same_day (?w1\<lparr>uploads := [stuck0]\<rparr>))"
    by (simp add: schedule0_times)
  then have r3: "redispatched st0 later_same_day (?w1\<lparr>uploads := [stuck0]\<rparr>) = [7]"
    by (simp add: redispatched_single [OF stuck0_times(3)] schedule0_times split: if_splits)
  have "throttled ?w1 t 7 = throttled ?w2 t 7" for t
    using r2 by (simp add: throttled_def cache_get_def cache_after_scan)
  with r3 have r3': "redispatched st0 later_same_day (?w2\<lparr>uploads := [stuck0]\<rparr>) = [7]"
    by (simp add: redispatched_single [OF stuck0_times(3)] schedule0_times)
  have events: "scans st0 schedule0 w0 = [(1520589600, 7), (1520593200, 7)]"
    by (simp add: schedule0_def first_scan0 r2 r3' schedule0_times)
  from thm1 have "0 < (1::nat) \<and> 1 < length (scans st0 schedule0 w0)
        \<and> snd (scans st0 schedule0 w0 ! 0) = snd (scans st0 schedule0 w0 ! 1) \<longrightarrow>
      fst (scans st0 schedule0 w0 ! 0) + UPLOAD_REATTEMPT_LIMIT_SECONDS st0
        \<le> fst (scans st0 schedule0 w0 ! 1)"
    by blast
  then have gap: "fst (scans st0 schedule0 w0 ! 0) + UPLOAD_REATTEMPT_LIMIT_SECONDS st0
        \<le> fst (scans st0 schedule0 w0 ! 1)"
    by (simp add: events)
  from schedule0_distinct have "list_all (\<lambda>s. distinct (map upload_id (snd s))) schedule0"
    by (simp only: list_all_iff)
  with schedule0_sorted events gap first_scan0 r2 r3 show ?thesis
    by blast
qed

end
